theory Spec2Isabelle
  imports Main "HOL-Library.Word" "HOL-Library.AList"
begin

unbundle bit_operations_syntax

section \<open>Instruction codec\<close>

text \<open>
  Python integers are unbounded, so instruction words and register values are \<open>int\<close>.
  \<open>x << n\<close> is \<open>push_bit n x\<close>, \<open>x >> n\<close> is \<open>drop_bit n x\<close> (floor division by
  \<open>2 ^ n\<close>, also for negative \<open>x\<close>), and \<open>&\<close>, \<open>|\<close>, \<open>^\<close> are the two's-complement
  \<open>AND\<close>, \<open>OR\<close>, \<open>XOR\<close> on \<open>int\<close>.
\<close>

text \<open>\<open>make_instruction\<close> of phase5.py (and, with the same body, of phase3.py).\<close>

definition make_instruction :: "int \<Rightarrow> int \<Rightarrow> int \<Rightarrow> int \<Rightarrow> int \<Rightarrow> int" where
  "make_instruction opcode rd rs rt address_or_operand =
     push_bit 28 opcode OR push_bit 24 rd OR push_bit 20 rs OR push_bit 16 rt
       OR (address_or_operand AND 0xFFFF)"

text \<open>
  The field extractions that every handler writes inline:
  \<open>(instr >> 28) & 0b1111\<close>, \<open>(instr >> 24) & 0b1111\<close>, \<open>(instr >> 20) & 0b1111\<close>,
  \<open>(instr >> 16) & 0b1111\<close> and \<open>instr & 0xFFFF\<close>.
\<close>

definition opcode_of :: "int \<Rightarrow> int" where
  "opcode_of instr = drop_bit 28 instr AND 0b1111"

definition rd_of :: "int \<Rightarrow> int" where
  "rd_of instr = drop_bit 24 instr AND 0b1111"

definition rs_of :: "int \<Rightarrow> int" where
  "rs_of instr = drop_bit 20 instr AND 0b1111"

definition rt_of :: "int \<Rightarrow> int" where
  "rt_of instr = drop_bit 16 instr AND 0b1111"

definition imm_of :: "int \<Rightarrow> int" where
  "imm_of instr = instr AND 0xFFFF"

text \<open>The five extractions together, as the first lines of \<open>format_instruction\<close> do them.\<close>

definition decode_fields :: "int \<Rightarrow> int \<times> int \<times> int \<times> int \<times> int" where
  "decode_fields instr = (opcode_of instr, rd_of instr, rs_of instr, rt_of instr, imm_of instr)"

text \<open>\<open>_decode_alu_operands\<close>, on the instruction word it reads from \<open>current_instruction\<close>.\<close>

definition decode_alu_operands :: "int \<Rightarrow> int \<times> int \<times> int" where
  "decode_alu_operands instr = (rd_of instr, rs_of instr, rt_of instr)"

section \<open>Architectural state\<close>

text \<open>The \<open>flags\<close> dictionary has the three fixed keys Z, C and N.\<close>

record flag_bank =
  flag_Z :: bool
  flag_C :: bool
  flag_N :: bool

text \<open>
  \<open>CPUState\<close>. The stack is a Python list: \<open>append\<close> adds at the end and \<open>pop()\<close>
  removes the last element. The memory of the sequential substrate is a dictionary.
\<close>

record cpu_state =
  registers :: "int list"
  pc :: int
  stack :: "int list"
  flags :: flag_bank
  memory :: "int \<rightharpoonup> int"
  halted :: bool

text \<open>
  The exceptions the simulator raises, with the values their messages format.
\<close>

datatype error =
    RetEmptyStack
  | PopEmptyStack
  | InvalidRegister int
  | DivisionByZero
  | UnknownALUOperation string
  | UnknownOpcode int
  | InvalidPC int
  | IndexError

text \<open>
  The log is a list of formatted strings. An entry is represented by the kind of line and
  the values the line formats, in the order the format string names them.
\<close>

datatype log_entry =
    LogNop int
  | LogCall int int
  | LogCallReturn int int int
  | LogRetUnderflow int
  | LogRet int int
  | LogHalt int
  | LogPush int int int
  | LogPopUnderflow int
  | LogPop int int int
  | LogBeqTaken int int
  | LogBeqNotTaken int
  | LogCmp int int int int int
  | LogCmpFlags int int int int int bool bool bool
  | LogALU int string int int int int int int
  | LogALUFlags int string int int int int int int bool bool bool
  | LogMov int int int
  | LogLoad int int int int int
  | LogStore int int int int int
  | LogThreadStore int int int int
  | LogStopped int error
  | LogDataHazard int
  | LogControlHazard int
  | LogThreadDataHazard int int int
  | LogThreadControlHazard int int int

text \<open>The fields every simulator class has (\<open>InstructionSetSimulator.__init__\<close>).\<close>

record sim =
  state :: cpu_state
  current_instruction :: int
  log :: "log_entry list"
  breakpoints :: "int list"
  step_count :: int

text \<open>
  A handler either returns or raises. A raise keeps the mutations made before it, so the
  error comes with the state at the moment of the raise.
\<close>

type_synonym 's outcome = "(error \<times> 's) + 's"

definition initial_cpu_state :: cpu_state where
  "initial_cpu_state =
     \<lparr>registers = replicate 16 0, pc = 0, stack = [],
      flags = \<lparr>flag_Z = False, flag_C = False, flag_N = False\<rparr>,
      memory = Map.empty, halted = False\<rparr>"

definition initial_sim :: sim where
  "initial_sim =
     \<lparr>state = initial_cpu_state, current_instruction = 0, log = [], breakpoints = [],
      step_count = 0\<rparr>"

section \<open>The instruction handlers of phase5.py\<close>

text \<open>
  The handlers of \<open>InstructionSetSimulator\<close> in phase5.py. They are inherited by
  \<open>Phase3Simulator\<close>, \<open>Phase4Simulator\<close> and \<open>ThreadContext\<close>, so they are defined on
  every extension of \<open>sim\<close>. Register indices are masked to \<open>0..15\<close> and the register bank
  is built as \<open>[0] * 16\<close> and only ever updated by item assignment, so \<open>registers[i]\<close> is
  within range in every state the code reaches, and \<open>regs ! nat i\<close> is that read.
\<close>

definition nop :: "'a sim_scheme \<Rightarrow> 'a sim_scheme outcome" where
  "nop s = Inr (s\<lparr>log := log s @ [LogNop (step_count s)]\<rparr>)"

definition call :: "'a sim_scheme \<Rightarrow> 'a sim_scheme outcome" where
  "call s =
     (let addr = current_instruction s AND 0xFFFF;
          st = state s
      in Inr (s\<lparr>state := st\<lparr>stack := stack st @ [pc st], pc := addr\<rparr>,
                log := log s @ [LogCall (step_count s) addr]\<rparr>))"

definition ret :: "'a sim_scheme \<Rightarrow> 'a sim_scheme outcome" where
  "ret s =
     (let st = state s in
      if stack st = [] then
        Inl (RetEmptyStack, s\<lparr>log := log s @ [LogRetUnderflow (step_count s)]\<rparr>)
      else
        let return_addr = last (stack st)
        in Inr (s\<lparr>state := st\<lparr>stack := butlast (stack st), pc := return_addr\<rparr>,
                  log := log s @ [LogRet (step_count s) return_addr]\<rparr>))"

definition halt :: "'a sim_scheme \<Rightarrow> 'a sim_scheme outcome" where
  "halt s =
     Inr (s\<lparr>state := (state s)\<lparr>halted := True\<rparr>, log := log s @ [LogHalt (step_count s)]\<rparr>)"

definition push :: "'a sim_scheme \<Rightarrow> 'a sim_scheme outcome" where
  "push s =
     (let reg = rd_of (current_instruction s);
          st = state s
      in if reg \<ge> int (length (registers st)) then Inl (InvalidRegister reg, s)
         else Inr (s\<lparr>state := st\<lparr>stack := stack st @ [registers st ! nat reg]\<rparr>,
                     log := log s @ [LogPush (step_count s) reg (registers st ! nat reg)]\<rparr>))"

definition pop :: "'a sim_scheme \<Rightarrow> 'a sim_scheme outcome" where
  "pop s =
     (let st = state s in
      if stack st = [] then
        Inl (PopEmptyStack, s\<lparr>log := log s @ [LogPopUnderflow (step_count s)]\<rparr>)
      else
        let reg = rd_of (current_instruction s)
        in if reg \<ge> int (length (registers st)) then Inl (InvalidRegister reg, s)
           else Inr (s\<lparr>state := st\<lparr>registers := (registers st)[nat reg := last (stack st)],
                                   stack := butlast (stack st)\<rparr>,
                       log := log s @ [LogPop (step_count s) reg (last (stack st))]\<rparr>))"

text \<open>
  \<open>beq\<close>: the offset is the low 16 bits, sign-extended by \<open>offset - 0x10000\<close> when bit 15
  is set; the branch is taken on the Z flag, relative to \<open>pc - 4\<close>.
\<close>

definition sign_extend_16 :: "int \<Rightarrow> int" where
  "sign_extend_16 offset = (if offset AND 0x8000 \<noteq> 0 then offset - 0x10000 else offset)"

definition beq :: "'a sim_scheme \<Rightarrow> 'a sim_scheme outcome" where
  "beq s =
     (let offset = sign_extend_16 (current_instruction s AND 0xFFFF);
          st = state s
      in if flag_Z (flags st) then
           let new_pc = (pc st - 4) + offset
           in Inr (s\<lparr>state := st\<lparr>pc := new_pc\<rparr>,
                     log := log s @ [LogBeqTaken (step_count s) new_pc]\<rparr>)
         else Inr (s\<lparr>log := log s @ [LogBeqNotTaken (step_count s)]\<rparr>))"

definition cmp :: "'a sim_scheme \<Rightarrow> 'a sim_scheme outcome" where
  "cmp s =
     (let rs = rs_of (current_instruction s);
          rt = rt_of (current_instruction s);
          st = state s;
          a = registers st ! nat rs;
          b = registers st ! nat rt;
          result = a - b
      in Inr (s\<lparr>state := st\<lparr>flags := \<lparr>flag_Z = (result = 0), flag_C = (b > a),
                                        flag_N = (drop_bit 31 result AND 1 = 1)\<rparr>\<rparr>,
                log := log s @ [LogCmp (step_count s) rs a rt b]\<rparr>))"

text \<open>
  \<open>alu_operation\<close>: the result before the mask, and the carry flag, which only ADD, SUB and
  MUL assign. \<open>//\<close> is floor division, as \<open>div\<close> on \<open>int\<close> is.
\<close>

definition alu_result :: "string \<Rightarrow> int \<Rightarrow> int \<Rightarrow> int option" where
  "alu_result op a b =
     (if op = ''ADD'' then Some (a + b)
      else if op = ''SUB'' then Some (a - b)
      else if op = ''MUL'' then Some (a * b)
      else if op = ''DIV'' then Some (a div b)
      else if op = ''AND'' then Some (a AND b)
      else if op = ''OR'' then Some (a OR b)
      else if op = ''XOR'' then Some (a XOR b)
      else None)"

definition alu_carry :: "string \<Rightarrow> int \<Rightarrow> int \<Rightarrow> bool \<Rightarrow> bool" where
  "alu_carry op a b old_C =
     (if op = ''ADD'' then a + b > 0xFFFFFFFF
      else if op = ''SUB'' then b > a
      else if op = ''MUL'' then a * b > 0xFFFFFFFF
      else old_C)"

definition alu_operation ::
  "string \<Rightarrow> int \<times> int \<times> int \<Rightarrow> 'a sim_scheme \<Rightarrow> 'a sim_scheme outcome" where
  "alu_operation op operands s =
     (case operands of (rd, rs, rt) \<Rightarrow>
        let st = state s;
            a = registers st ! nat rs;
            b = registers st ! nat rt
        in if op = ''DIV'' \<and> b = 0 then Inl (DivisionByZero, s)
           else case alu_result op a b of
             None \<Rightarrow> Inl (UnknownALUOperation op, s)
           | Some full \<Rightarrow>
               let result = full AND 0xFFFFFFFF
               in Inr (s\<lparr>state := st\<lparr>registers := (registers st)[nat rd := result],
                                       flags := \<lparr>flag_Z = (result = 0),
                                                 flag_C = alu_carry op a b (flag_C (flags st)),
                                                 flag_N = (drop_bit 31 result AND 1 = 1)\<rparr>\<rparr>,
                         log := log s @ [LogALU (step_count s) op rd rs a rt b result]\<rparr>))"

text \<open>
  The Python methods \<open>add\<close>, \<open>sub\<close>, \<open>mul\<close> and \<open>div\<close> carry the suffix of their
  siblings \<open>and_op\<close>, \<open>xor_op\<close> and \<open>or_op\<close> here, since \<open>div\<close> is HOL's division.
\<close>

definition add_op :: "'a sim_scheme \<Rightarrow> 'a sim_scheme outcome" where
  "add_op s = alu_operation ''ADD'' (decode_alu_operands (current_instruction s)) s"

definition sub_op :: "'a sim_scheme \<Rightarrow> 'a sim_scheme outcome" where
  "sub_op s = alu_operation ''SUB'' (decode_alu_operands (current_instruction s)) s"

definition mul_op :: "'a sim_scheme \<Rightarrow> 'a sim_scheme outcome" where
  "mul_op s = alu_operation ''MUL'' (decode_alu_operands (current_instruction s)) s"

definition div_op :: "'a sim_scheme \<Rightarrow> 'a sim_scheme outcome" where
  "div_op s = alu_operation ''DIV'' (decode_alu_operands (current_instruction s)) s"

definition and_op :: "'a sim_scheme \<Rightarrow> 'a sim_scheme outcome" where
  "and_op s = alu_operation ''AND'' (decode_alu_operands (current_instruction s)) s"

definition xor_op :: "'a sim_scheme \<Rightarrow> 'a sim_scheme outcome" where
  "xor_op s = alu_operation ''XOR'' (decode_alu_operands (current_instruction s)) s"

definition or_op :: "'a sim_scheme \<Rightarrow> 'a sim_scheme outcome" where
  "or_op s = alu_operation ''OR'' (decode_alu_operands (current_instruction s)) s"

definition mov :: "'a sim_scheme \<Rightarrow> 'a sim_scheme outcome" where
  "mov s =
     (let rd = rd_of (current_instruction s);
          imm0 = current_instruction s AND 0xFFFF;
          imm = (if imm0 AND 0x8000 \<noteq> 0 then imm0 OR 0xFFFF0000 else imm0);
          st = state s
      in Inr (s\<lparr>state := st\<lparr>registers := (registers st)[nat rd := imm]\<rparr>,
                log := log s @ [LogMov (step_count s) rd imm]\<rparr>))"

text \<open>\<open>load\<close> reads the dictionary of the CPU state, with \<open>get(addr, 0)\<close>.\<close>

definition load :: "'a sim_scheme \<Rightarrow> 'a sim_scheme outcome" where
  "load s =
     (let rd = rd_of (current_instruction s);
          rs = rs_of (current_instruction s);
          imm = current_instruction s AND 0xFFFF;
          st = state s;
          addr = (registers st ! nat rs + imm) AND 0xFFFFFFFF;
          val = (case memory st addr of None \<Rightarrow> 0 | Some v \<Rightarrow> v)
      in Inr (s\<lparr>state := st\<lparr>registers := (registers st)[nat rd := val]\<rparr>,
                log := log s @ [LogLoad (step_count s) rd rs imm val]\<rparr>))"

definition store :: "'a sim_scheme \<Rightarrow> 'a sim_scheme outcome" where
  "store s =
     (let rs = rs_of (current_instruction s);
          rt = rt_of (current_instruction s);
          st = state s;
          addr = registers st ! nat rs;
          val = registers st ! nat rt
      in Inr (s\<lparr>state := st\<lparr>memory := (memory st)(addr \<mapsto> val)\<rparr>,
                log := log s @ [LogStore (step_count s) rs addr rt val]\<rparr>))"

text \<open>
  The dispatch dictionary \<open>self.opcodes\<close> of the base class, which \<open>Phase4Simulator\<close> and
  \<open>ThreadContext\<close> use unchanged: keys 0 to 15 and the key \<open>0b10000\<close> for STORE.
\<close>

definition opcodes :: "int \<Rightarrow> ('a sim_scheme \<Rightarrow> 'a sim_scheme outcome) option" where
  "opcodes k =
     (if k = 0b0000 then Some nop
      else if k = 0b0001 then Some call
      else if k = 0b0010 then Some ret
      else if k = 0b0011 then Some halt
      else if k = 0b0100 then Some push
      else if k = 0b0101 then Some pop
      else if k = 0b0110 then Some beq
      else if k = 0b0111 then Some cmp
      else if k = 0b1000 then Some add_op
      else if k = 0b1001 then Some sub_op
      else if k = 0b1010 then Some mul_op
      else if k = 0b1011 then Some div_op
      else if k = 0b1100 then Some load
      else if k = 0b1101 then Some mov
      else if k = 0b1110 then Some xor_op
      else if k = 0b1111 then Some and_op
      else if k = 0b10000 then Some store
      else None)"


section \<open>The sequential interpreters\<close>

text \<open>
  phase3.py is the standalone sequential interpreter. Its \<open>ret\<close>, \<open>halt\<close>, \<open>push\<close> and
  \<open>pop\<close> are, statement for statement, those of phase5.py above. Its \<open>call\<close> and \<open>beq\<close>
  take an absolute 24-bit address, and its \<open>cmp\<close> and \<open>alu_operation\<close> also format the
  three flags into the log line.
\<close>

definition p3_call :: "'a sim_scheme \<Rightarrow> 'a sim_scheme outcome" where
  "p3_call s =
     (let addr = current_instruction s AND 0x00FFFFFF;
          st = state s;
          return_addr = pc st
      in Inr (s\<lparr>state := st\<lparr>stack := stack st @ [return_addr], pc := addr\<rparr>,
                log := log s @ [LogCallReturn (step_count s) addr return_addr]\<rparr>))"

definition p3_beq :: "'a sim_scheme \<Rightarrow> 'a sim_scheme outcome" where
  "p3_beq s =
     (let target_addr = current_instruction s AND 0x00FFFFFF;
          st = state s
      in if flag_Z (flags st) then
           Inr (s\<lparr>state := st\<lparr>pc := target_addr\<rparr>,
                  log := log s @ [LogBeqTaken (step_count s) target_addr]\<rparr>)
         else Inr (s\<lparr>log := log s @ [LogBeqNotTaken (step_count s)]\<rparr>))"

definition p3_cmp :: "'a sim_scheme \<Rightarrow> 'a sim_scheme outcome" where
  "p3_cmp s =
     (let rs = rs_of (current_instruction s);
          rt = rt_of (current_instruction s);
          st = state s;
          a = registers st ! nat rs;
          b = registers st ! nat rt;
          result = a - b;
          z = (result = 0);
          n = (drop_bit 31 result AND 1 = 1);
          c = (b > a)
      in Inr (s\<lparr>state := st\<lparr>flags := \<lparr>flag_Z = z, flag_C = c, flag_N = n\<rparr>\<rparr>,
                log := log s @ [LogCmpFlags (step_count s) rs a rt b z n c]\<rparr>))"

definition p3_alu_operation ::
  "string \<Rightarrow> int \<times> int \<times> int \<Rightarrow> 'a sim_scheme \<Rightarrow> 'a sim_scheme outcome" where
  "p3_alu_operation op operands s =
     (case operands of (rd, rs, rt) \<Rightarrow>
        let st = state s;
            a = registers st ! nat rs;
            b = registers st ! nat rt
        in if op = ''DIV'' \<and> b = 0 then Inl (DivisionByZero, s)
           else case alu_result op a b of
             None \<Rightarrow> Inl (UnknownALUOperation op, s)
           | Some full \<Rightarrow>
               let result = full AND 0xFFFFFFFF;
                   z = (result = 0);
                   n = (drop_bit 31 result AND 1 = 1);
                   c = alu_carry op a b (flag_C (flags st))
               in Inr (s\<lparr>state := st\<lparr>registers := (registers st)[nat rd := result],
                                       flags := \<lparr>flag_Z = z, flag_C = c, flag_N = n\<rparr>\<rparr>,
                         log := log s @ [LogALUFlags (step_count s) op rd rs a rt b result z n c]\<rparr>))"

definition p3_add :: "'a sim_scheme \<Rightarrow> 'a sim_scheme outcome" where
  "p3_add s = p3_alu_operation ''ADD'' (decode_alu_operands (current_instruction s)) s"

definition p3_sub :: "'a sim_scheme \<Rightarrow> 'a sim_scheme outcome" where
  "p3_sub s = p3_alu_operation ''SUB'' (decode_alu_operands (current_instruction s)) s"

definition p3_mul :: "'a sim_scheme \<Rightarrow> 'a sim_scheme outcome" where
  "p3_mul s = p3_alu_operation ''MUL'' (decode_alu_operands (current_instruction s)) s"

definition p3_div :: "'a sim_scheme \<Rightarrow> 'a sim_scheme outcome" where
  "p3_div s = p3_alu_operation ''DIV'' (decode_alu_operands (current_instruction s)) s"

definition p3_and_op :: "'a sim_scheme \<Rightarrow> 'a sim_scheme outcome" where
  "p3_and_op s = p3_alu_operation ''AND'' (decode_alu_operands (current_instruction s)) s"

definition p3_or_op :: "'a sim_scheme \<Rightarrow> 'a sim_scheme outcome" where
  "p3_or_op s = p3_alu_operation ''OR'' (decode_alu_operands (current_instruction s)) s"

definition p3_xor_op :: "'a sim_scheme \<Rightarrow> 'a sim_scheme outcome" where
  "p3_xor_op s = p3_alu_operation ''XOR'' (decode_alu_operands (current_instruction s)) s"

text \<open>The dispatch dictionary of phase3.py: keys 1 to 14, no NOP.\<close>

definition p3_opcodes :: "int \<Rightarrow> (sim \<Rightarrow> sim outcome) option" where
  "p3_opcodes k =
     (if k = 0b0001 then Some p3_call
      else if k = 0b0010 then Some ret
      else if k = 0b0011 then Some halt
      else if k = 0b0100 then Some push
      else if k = 0b0101 then Some pop
      else if k = 0b0110 then Some p3_beq
      else if k = 0b0111 then Some p3_cmp
      else if k = 0b1000 then Some p3_add
      else if k = 0b1001 then Some p3_sub
      else if k = 0b1010 then Some p3_mul
      else if k = 0b1011 then Some p3_div
      else if k = 0b1100 then Some p3_and_op
      else if k = 0b1101 then Some p3_or_op
      else if k = 0b1110 then Some p3_xor_op
      else None)"

text \<open>The dictionary \<open>Phase3Simulator.__init__\<close> of phase5.py installs: keys 0 to 14.\<close>

definition phase3_opcodes :: "int \<Rightarrow> (sim \<Rightarrow> sim outcome) option" where
  "phase3_opcodes k =
     (if k = 0b0000 then Some nop
      else if k = 0b0001 then Some call
      else if k = 0b0010 then Some ret
      else if k = 0b0011 then Some halt
      else if k = 0b0100 then Some push
      else if k = 0b0101 then Some pop
      else if k = 0b0110 then Some beq
      else if k = 0b0111 then Some cmp
      else if k = 0b1000 then Some add_op
      else if k = 0b1001 then Some sub_op
      else if k = 0b1010 then Some mul_op
      else if k = 0b1011 then Some div_op
      else if k = 0b1100 then Some and_op
      else if k = 0b1101 then Some or_op
      else if k = 0b1110 then Some xor_op
      else None)"

text \<open>
  \<open>fetch\<close>, \<open>decode_execute\<close>, \<open>run\<close>, \<open>reset\<close> and \<open>load_program\<close> have the same text in
  phase3.py and in \<open>Phase3Simulator\<close> of phase5.py; only the dictionary differs. The
  interpreter in use selects it.
\<close>

datatype interpreter = Phase3_py | Phase3Simulator

definition opcode_table :: "interpreter \<Rightarrow> int \<Rightarrow> (sim \<Rightarrow> sim outcome) option" where
  "opcode_table v = (case v of Phase3_py \<Rightarrow> p3_opcodes | Phase3Simulator \<Rightarrow> phase3_opcodes)"

definition fetch :: "sim \<Rightarrow> sim outcome" where
  "fetch s =
     (case memory (state s) (pc (state s)) of
        Some instr \<Rightarrow>
          Inr (s\<lparr>current_instruction := instr, state := (state s)\<lparr>pc := pc (state s) + 4\<rparr>\<rparr>)
      | None \<Rightarrow> Inl (InvalidPC (pc (state s)), s))"

definition decode_execute :: "interpreter \<Rightarrow> sim \<Rightarrow> sim outcome" where
  "decode_execute v s =
     (let opcode = opcode_of (current_instruction s)
      in case opcode_table v opcode of
           Some handler \<Rightarrow>
             (case handler s of
                Inl e \<Rightarrow> Inl e
              | Inr s1 \<Rightarrow> Inr (s1\<lparr>step_count := step_count s1 + 1\<rparr>))
         | None \<Rightarrow> Inl (UnknownOpcode opcode, s))"

text \<open>
  What a handler of the sequential interpreters leaves alone, whether it returns or raises:
  the step counter, the memory dictionary, the fetched word and the breakpoint list.
\<close>

definition handler_frame :: "sim \<Rightarrow> sim \<Rightarrow> bool" where
  "handler_frame s s' \<longleftrightarrow>
     step_count s' = step_count s \<and> memory (state s') = memory (state s) \<and>
     current_instruction s' = current_instruction s \<and> breakpoints s' = breakpoints s"

definition outcome_state :: "'s outcome \<Rightarrow> 's" where
  "outcome_state r = (case r of Inl (e, s) \<Rightarrow> s | Inr s \<Rightarrow> s)"

lemma alu_operation_frame: "handler_frame s (outcome_state (alu_operation op operands s))"
  by (cases operands)
     (simp add: alu_operation_def handler_frame_def outcome_state_def Let_def split: option.split)

lemma p3_alu_operation_frame: "handler_frame s (outcome_state (p3_alu_operation op operands s))"
  by (cases operands)
     (simp add: p3_alu_operation_def handler_frame_def outcome_state_def Let_def
        split: option.split)

lemma phase3_opcodes_frame:
  assumes "phase3_opcodes k = Some handler"
  shows "handler_frame s (outcome_state (handler s))"
proof -
  have "handler \<in> {nop, call, ret, halt, push, pop, beq, cmp, add_op, sub_op, mul_op, div_op,
                   and_op, or_op, xor_op}"
    using assms by (simp add: phase3_opcodes_def split: if_splits)
  then show ?thesis
    using alu_operation_frame [of s]
    by (elim insertE emptyE)
       (simp_all add: nop_def call_def ret_def halt_def push_def pop_def beq_def cmp_def
          add_op_def sub_op_def mul_op_def div_op_def and_op_def or_op_def xor_op_def
          handler_frame_def outcome_state_def Let_def)
qed

lemma p3_opcodes_frame:
  assumes "p3_opcodes k = Some handler"
  shows "handler_frame s (outcome_state (handler s))"
proof -
  have "handler \<in> {p3_call, ret, halt, push, pop, p3_beq, p3_cmp, p3_add, p3_sub, p3_mul,
                   p3_div, p3_and_op, p3_or_op, p3_xor_op}"
    using assms by (simp add: p3_opcodes_def split: if_splits)
  then show ?thesis
    using p3_alu_operation_frame [of s]
    by (elim insertE emptyE)
       (simp_all add: p3_call_def ret_def halt_def push_def pop_def p3_beq_def p3_cmp_def
          p3_add_def p3_sub_def p3_mul_def p3_div_def p3_and_op_def p3_or_op_def p3_xor_op_def
          handler_frame_def outcome_state_def Let_def)
qed

lemma opcode_table_frame:
  "opcode_table v k = Some handler \<Longrightarrow> handler_frame s (outcome_state (handler s))"
  by (cases v) (simp_all add: opcode_table_def phase3_opcodes_frame p3_opcodes_frame)

lemma fetch_step_count: "fetch s = Inr s1 \<Longrightarrow> step_count s1 = step_count s"
  by (auto simp add: fetch_def split: option.splits)

lemma decode_execute_step_count:
  assumes "decode_execute v s1 = Inr s2"
  shows "step_count s2 = step_count s1 + 1"
proof (cases "opcode_table v (opcode_of (current_instruction s1))")
  case None
  with assms show ?thesis by (simp add: decode_execute_def)
next
  case (Some handler)
  from opcode_table_frame [OF Some, of s1] assms Some show ?thesis
    by (cases "handler s1")
       (auto simp add: decode_execute_def handler_frame_def outcome_state_def)
qed

text \<open>
  The loop of \<open>run\<close>, without the prints of the breakpoint test and of the debug flag and
  with \<open>interactive\<close> false. An iteration that does not raise adds one to the step counter,
  so the loop ends; an exception is logged and breaks the loop.
\<close>

function run_loop :: "interpreter \<Rightarrow> sim \<Rightarrow> int \<Rightarrow> sim" where
  "run_loop v s max_steps =
     (if \<not> halted (state s) \<and> step_count s < max_steps then
        (case fetch s of
           Inl (e, s1) \<Rightarrow> s1\<lparr>log := log s1 @ [LogStopped (step_count s1) e]\<rparr>
         | Inr s1 \<Rightarrow>
             (case decode_execute v s1 of
                Inl (e, s2) \<Rightarrow> s2\<lparr>log := log s2 @ [LogStopped (step_count s2) e]\<rparr>
              | Inr s2 \<Rightarrow> run_loop v s2 max_steps))
      else s)"
  by pat_completeness auto
termination
proof (relation "measure (\<lambda>(v, s, max_steps). nat (max_steps - step_count s))")
  show "wf (measure (\<lambda>(v, s, max_steps). nat (max_steps - step_count s)))"
    by simp
next
  fix v s max_steps s1 s2
  assume "\<not> halted (state s) \<and> step_count s < max_steps"
    and "fetch s = Inr s1" and "decode_execute v s1 = Inr s2"
  then show "((v, s2, max_steps), (v, s, max_steps))
               \<in> measure (\<lambda>(v, s, max_steps). nat (max_steps - step_count s))"
    using fetch_step_count [of s s1] decode_execute_step_count [of v s1 s2] by simp
qed

declare run_loop.simps [simp del]

definition run :: "interpreter \<Rightarrow> sim \<Rightarrow> int \<Rightarrow> int \<Rightarrow> sim" where
  "run v s start_addr max_steps =
     run_loop v (s\<lparr>state := (state s)\<lparr>pc := start_addr\<rparr>\<rparr>) max_steps"

definition reset :: "sim \<Rightarrow> sim" where
  "reset s =
     s\<lparr>state := \<lparr>registers = replicate 16 0, pc = 0, stack = [],
                  flags = \<lparr>flag_Z = False, flag_C = False, flag_N = False\<rparr>,
                  memory = memory (state s), halted = False\<rparr>,
       log := [], step_count := 0\<rparr>"

text \<open>
  \<open>load_program\<close> of the base class, the loop over \<open>enumerate(program)\<close>;
  \<open>Phase4Simulator\<close> inherits it.
\<close>

fun load_words :: "(int \<rightharpoonup> int) \<Rightarrow> int \<Rightarrow> int \<Rightarrow> int list \<Rightarrow> (int \<rightharpoonup> int)" where
  "load_words m start_addr offset [] = m"
| "load_words m start_addr offset (instr # rest) =
     load_words (m(start_addr + offset * 4 \<mapsto> instr)) start_addr (offset + 1) rest"

definition load_program :: "'a sim_scheme \<Rightarrow> int list \<Rightarrow> int \<Rightarrow> 'a sim_scheme" where
  "load_program s program start_addr =
     s\<lparr>state := (state s)\<lparr>memory := load_words (memory (state s)) start_addr 0 program\<rparr>\<rparr>"

text \<open>
  A history of calls made on one interpreter object through its interface, oldest first,
  and the state the object is in after them.
\<close>

datatype api_call = Load "int list" int | Run int int | Reset

fun apply_call :: "interpreter \<Rightarrow> api_call \<Rightarrow> sim \<Rightarrow> sim" where
  "apply_call v (Load program start_addr) s = load_program s program start_addr"
| "apply_call v (Run start_addr max_steps) s = run v s start_addr max_steps"
| "apply_call v Reset s = reset s"

fun apply_calls :: "interpreter \<Rightarrow> api_call list \<Rightarrow> sim \<Rightarrow> sim" where
  "apply_calls v [] s = s"
| "apply_calls v (c # cs) s = apply_calls v cs (apply_call v c s)"

fun is_load :: "api_call \<Rightarrow> bool" where
  "is_load (Load program start_addr) = True"
| "is_load (Run start_addr max_steps) = False"
| "is_load Reset = False"

text \<open>A handler's outcome with the breakpoint list of the object replaced.\<close>

definition with_breakpoints :: "int list \<Rightarrow> sim outcome \<Rightarrow> sim outcome" where
  "with_breakpoints b r =
     (case r of Inl (e, x) \<Rightarrow> Inl (e, x\<lparr>breakpoints := b\<rparr>) | Inr x \<Rightarrow> Inr (x\<lparr>breakpoints := b\<rparr>))"

text \<open>The part of the object the claim compares, with the log and the step counter.\<close>

definition observable :: "sim \<Rightarrow> cpu_state \<times> log_entry list \<times> int" where
  "observable s = (state s, log s, step_count s)"


section \<open>The memory controller\<close>

text \<open>
  \<open>MemoryController\<close>, used by one caller at a time, so the locks are not part of the
  state. The backing array is a Python list. The cache is a Python dictionary, which keeps
  its keys in insertion order: an association list with \<open>AList.update\<close> (an existing key
  keeps its place, a new key goes to the end) and \<open>map_of\<close> for lookup. The fields carry
  the prefix \<open>mc_\<close>, since \<open>memory\<close> already names the dictionary of the CPU state.
\<close>

record memory_controller =
  mc_memory :: "int list"
  mc_cache :: "(int \<times> int) list"
  mc_cache_size :: int
  mc_read_count :: int
  mc_write_count :: int
  mc_cache_hits :: int
  mc_stats_enabled :: bool

definition MEMORY_SIZE :: int where
  "MEMORY_SIZE = 1024"

definition memory_controller_init :: "int \<Rightarrow> memory_controller" where
  "memory_controller_init sz =
     \<lparr>mc_memory = replicate (nat sz) 0, mc_cache = [], mc_cache_size = 64,
      mc_read_count = 0, mc_write_count = 0, mc_cache_hits = 0, mc_stats_enabled = False\<rparr>"

definition get_segment :: "memory_controller \<Rightarrow> int \<Rightarrow> int" where
  "get_segment m addr = (addr div 64) mod 16"

text \<open>
  \<open>read\<close> returns the value and leaves the controller with an updated cache and counters.
  On a miss at full capacity the first key in insertion order is removed.
\<close>

definition mc_read :: "memory_controller \<Rightarrow> int \<Rightarrow> int \<times> memory_controller" where
  "mc_read m addr =
     (case map_of (mc_cache m) addr of
        Some v \<Rightarrow>
          (v, if mc_stats_enabled m
              then m\<lparr>mc_cache_hits := mc_cache_hits m + 1, mc_read_count := mc_read_count m + 1\<rparr>
              else m)
      | None \<Rightarrow>
          if 0 \<le> addr \<and> addr < int (length (mc_memory m)) then
            let val = mc_memory m ! nat addr;
                c = (if int (length (mc_cache m)) \<ge> mc_cache_size m \<and> mc_cache m \<noteq> []
                     then AList.delete (fst (hd (mc_cache m))) (mc_cache m)
                     else mc_cache m);
                m1 = m\<lparr>mc_cache := AList.update addr val c\<rparr>
            in (val, if mc_stats_enabled m1
                     then m1\<lparr>mc_read_count := mc_read_count m1 + 1\<rparr> else m1)
          else (0, m))"

definition mc_write :: "memory_controller \<Rightarrow> int \<Rightarrow> int \<Rightarrow> bool \<times> memory_controller" where
  "mc_write m addr val =
     (if 0 \<le> addr \<and> addr < int (length (mc_memory m)) then
        let m1 = m\<lparr>mc_memory := (mc_memory m)[nat addr := val AND 0xFFFFFFFF],
                   mc_cache := AList.update addr (val AND 0xFFFFFFFF) (mc_cache m)\<rparr>
        in (True, if mc_stats_enabled m1
                  then m1\<lparr>mc_write_count := mc_write_count m1 + 1\<rparr> else m1)
      else (False, m))"

text \<open>
  Item assignment on a Python list: an index in \<open>[0, len)\<close> is taken as it is, an index in
  \<open>[-len, 0)\<close> counts from the end, and any other index raises IndexError.
\<close>

definition list_setitem :: "int list \<Rightarrow> int \<Rightarrow> int \<Rightarrow> int list option" where
  "list_setitem xs i v =
     (let n = int (length xs)
      in if 0 \<le> i \<and> i < n then Some (xs[nat i := v])
         else if - n \<le> i \<and> i < 0 then Some (xs[nat (n + i) := v])
         else None)"

text \<open>
  The loop of \<open>bulk_load\<close> over \<open>enumerate(program)\<close>. It assigns \<open>self.memory[addr]\<close>
  without a range test of its own.
\<close>

fun bulk_store ::
  "memory_controller \<Rightarrow> int \<Rightarrow> int \<Rightarrow> int list \<Rightarrow> memory_controller outcome" where
  "bulk_store m start_addr offset [] = Inr m"
| "bulk_store m start_addr offset (instr # rest) =
     (let addr = start_addr + offset * 4
      in case list_setitem (mc_memory m) addr (instr AND 0xFFFFFFFF) of
           None \<Rightarrow> Inl (IndexError, m)
         | Some mem \<Rightarrow>
             bulk_store
               (m\<lparr>mc_memory := mem,
                  mc_cache := AList.update addr (instr AND 0xFFFFFFFF) (mc_cache m)\<rparr>)
               start_addr (offset + 1) rest)"

definition bulk_load ::
  "memory_controller \<Rightarrow> int list \<Rightarrow> int \<Rightarrow> (error \<times> memory_controller) + (bool \<times> memory_controller)" where
  "bulk_load m program start_addr =
     (if start_addr + int (length program) * 4 > int (length (mc_memory m)) then Inr (False, m)
      else case bulk_store m start_addr 0 program of
             Inl e \<Rightarrow> Inl e
           | Inr m1 \<Rightarrow>
               Inr (True, if mc_stats_enabled m1
                          then m1\<lparr>mc_write_count := mc_write_count m1 + int (length program)\<rparr>
                          else m1))"

definition flush_cache :: "memory_controller \<Rightarrow> memory_controller" where
  "flush_cache m = m\<lparr>mc_cache := []\<rparr>"

definition enable_stats :: "memory_controller \<Rightarrow> bool \<Rightarrow> memory_controller" where
  "enable_stats m enabled =
     (if \<not> enabled
      then m\<lparr>mc_stats_enabled := enabled, mc_read_count := 0, mc_write_count := 0,
             mc_cache_hits := 0\<rparr>
      else m\<lparr>mc_stats_enabled := enabled\<rparr>)"

text \<open>
  Coherence: every address present in the cache is an address of the backing array, and
  the value the cache maps it to is the value the array holds there.
\<close>

definition coherent :: "memory_controller \<Rightarrow> bool" where
  "coherent m \<longleftrightarrow>
     (\<forall>addr \<in> set (map fst (mc_cache m)).
        case map_of (mc_cache m) addr of
          None \<Rightarrow> True
        | Some v \<Rightarrow> 0 \<le> addr \<and> addr < int (length (mc_memory m)) \<and> mc_memory m ! nat addr = v)"

text \<open>
  The calls a single caller makes on the controller, and the controller after them. An
  exception leaves the controller as it was when the exception was raised.
\<close>

datatype mc_call = McRead int | McWrite int int | McBulkLoad "int list" int | McFlushCache

fun mc_apply :: "mc_call \<Rightarrow> memory_controller \<Rightarrow> memory_controller" where
  "mc_apply (McRead addr) m = snd (mc_read m addr)"
| "mc_apply (McWrite addr v) m = snd (mc_write m addr v)"
| "mc_apply (McBulkLoad program start_addr) m =
     (case bulk_load m program start_addr of Inl (e, m1) \<Rightarrow> m1 | Inr (ok, m1) \<Rightarrow> m1)"
| "mc_apply McFlushCache m = flush_cache m"

fun mc_apply_all :: "mc_call list \<Rightarrow> memory_controller \<Rightarrow> memory_controller" where
  "mc_apply_all [] m = m"
| "mc_apply_all (c # cs) m = mc_apply_all cs (mc_apply c m)"

section \<open>The pipelined simulators\<close>

text \<open>
  The \<open>pipeline\<close> dictionary has the three fixed keys F, D and E; a slot holds a word or
  \<open>None\<close>.
\<close>

record pipeline_slots =
  slot_F :: "int option"
  slot_D :: "int option"
  slot_E :: "int option"

text \<open>The fields \<open>Phase4Simulator.__init__\<close> adds to those of the base class.\<close>

record pipelined = sim +
  pipeline :: pipeline_slots
  stall_detected :: bool
  flush_detected :: bool
  pc_changed :: bool
  modified_registers :: "int set"

definition phase4_init :: pipelined where
  "phase4_init =
     \<lparr>state = initial_cpu_state, current_instruction = 0, log = [], breakpoints = [],
      step_count = 0,
      pipeline = \<lparr>slot_F = None, slot_D = None, slot_E = None\<rparr>,
      stall_detected = False, flush_detected = False, pc_changed = False,
      modified_registers = {}\<rparr>"

subsection \<open>\<open>Phase4Simulator\<close>\<close>

definition phase4_execute_instruction :: "'a pipelined_scheme \<Rightarrow> 'a pipelined_scheme outcome" where
  "phase4_execute_instruction s =
     (case slot_E (pipeline s) of
        None \<Rightarrow> Inr s
      | Some e \<Rightarrow>
          let opcode = opcode_of e
          in case opcodes opcode of
               Some handler \<Rightarrow>
                 (case handler (s\<lparr>current_instruction := e\<rparr>) of
                    Inl err \<Rightarrow> Inl err
                  | Inr s1 \<Rightarrow>
                      if opcode \<in> set [0b1000, 0b1001, 0b1010, 0b1011, 0b1100, 0b1101, 0b1110,
                                       0b1111]
                      then Inr (s1\<lparr>modified_registers :=
                                     insert (rd_of e) (modified_registers s1)\<rparr>)
                      else Inr s1)
             | None \<Rightarrow> Inl (UnknownOpcode opcode, s))"

definition phase4_fetch :: "'a pipelined_scheme \<Rightarrow> 'a pipelined_scheme" where
  "phase4_fetch s =
     (case memory (state s) (pc (state s)) of
        None \<Rightarrow> s\<lparr>pipeline := (pipeline s)\<lparr>slot_F := None\<rparr>\<rparr>
      | Some instruction \<Rightarrow>
          s\<lparr>pipeline := (pipeline s)\<lparr>slot_F := Some instruction\<rparr>,
            state := (state s)\<lparr>pc := pc (state s) + 4\<rparr>\<rparr>)"

definition phase4_has_data_hazard :: "'a pipelined_scheme \<Rightarrow> bool" where
  "phase4_has_data_hazard s =
     (case (slot_D (pipeline s), slot_E (pipeline s)) of
        (Some decode_instr, Some execute_instr) \<Rightarrow>
          let d_opcode = opcode_of decode_instr;
              d_rs = rs_of decode_instr;
              d_rt = rt_of decode_instr;
              e_opcode = opcode_of execute_instr;
              e_rd = rd_of execute_instr
          in if d_opcode \<in> set [0b1000, 0b1001, 0b1010] \<and> (d_rs = e_rd \<or> d_rt = e_rd) then True
             else if d_opcode = 0b0110 \<and> d_rs = e_rd then True
             else False
      | _ \<Rightarrow> False)"

definition phase4_pipeline_step :: "'a pipelined_scheme \<Rightarrow> 'a pipelined_scheme outcome" where
  "phase4_pipeline_step s =
     (let s1 = s\<lparr>step_count := step_count s + 1, modified_registers := {}\<rparr>;
          s2 = (if phase4_has_data_hazard s1 then
                  s1\<lparr>pipeline := (pipeline s1)\<lparr>slot_E := None\<rparr>,
                     stall_detected := True, flush_detected := False,
                     log := log s1 @ [LogDataHazard (step_count s1)]\<rparr>
                else
                  phase4_fetch
                    (s1\<lparr>stall_detected := False, flush_detected := False,
                        pipeline := (pipeline s1)\<lparr>slot_E := slot_D (pipeline s1),
                                                   slot_D := slot_F (pipeline s1)\<rparr>\<rparr>))
      in case (case slot_E (pipeline s2) of
                 None \<Rightarrow> Inr s2
               | Some e \<Rightarrow> phase4_execute_instruction (s2\<lparr>current_instruction := e\<rparr>)) of
           Inl err \<Rightarrow> Inl err
         | Inr s3 \<Rightarrow>
             if pc_changed s3 then
               Inr (s3\<lparr>pipeline := (pipeline s3)\<lparr>slot_F := None, slot_D := None\<rparr>,
                      flush_detected := True, stall_detected := False, pc_changed := False,
                      log := log s3 @ [LogControlHazard (step_count s3)]\<rparr>)
             else Inr s3)"

subsection \<open>\<open>ThreadContext\<close>\<close>

text \<open>
  A thread holds a reference to the shared controller in its field \<open>memory\<close>, here
  \<open>thread_memory\<close>. The claims below concern one thread at a time, so the controller is
  carried in the thread's state.
\<close>

record thread_context = pipelined +
  core_id :: int
  thread_id :: int
  thread_memory :: memory_controller

definition thread_init :: "int \<Rightarrow> int \<Rightarrow> memory_controller \<Rightarrow> thread_context" where
  "thread_init cid tid m =
     \<lparr>state = initial_cpu_state, current_instruction = 0, log = [], breakpoints = [],
      step_count = 0,
      pipeline = \<lparr>slot_F = None, slot_D = None, slot_E = None\<rparr>,
      stall_detected = False, flush_detected = False, pc_changed = False,
      modified_registers = {},
      core_id = cid, thread_id = tid, thread_memory = m\<rparr>"

text \<open>
  \<open>execute_instruction\<close>: the opcode is the masked four bits; the STORE branch compares it
  with \<open>0b10000\<close>.
\<close>

definition thread_execute_instruction :: "thread_context \<Rightarrow> thread_context outcome" where
  "thread_execute_instruction t =
     (case slot_E (pipeline t) of
        None \<Rightarrow> Inr t
      | Some e \<Rightarrow>
          let opcode = opcode_of e
          in if opcode = 0b10000 then
               let rs = rs_of e;
                   rt = rt_of e;
                   addr = registers (state t) ! nat rs;
                   val = registers (state t) ! nat rt;
                   (success, m) = mc_write (thread_memory t) addr val
               in Inr (t\<lparr>thread_memory := m,
                         log := log t @ [LogThreadStore (core_id t) (thread_id t) addr val]\<rparr>)
             else case opcodes opcode of
                    Some handler \<Rightarrow> handler t
                  | None \<Rightarrow> Inl (UnknownOpcode opcode, t))"

definition thread_load_program ::
  "thread_context \<Rightarrow> int list \<Rightarrow> int \<Rightarrow> (error \<times> thread_context) + (bool \<times> thread_context)" where
  "thread_load_program t program start_addr =
     (let t1 = t\<lparr>state := (state t)\<lparr>pc := start_addr\<rparr>\<rparr>
      in case bulk_load (thread_memory t1) program start_addr of
           Inl (e, m) \<Rightarrow> Inl (e, t1\<lparr>thread_memory := m\<rparr>)
         | Inr (ok, m) \<Rightarrow> Inr (ok, t1\<lparr>thread_memory := m\<rparr>))"

definition thread_fetch :: "thread_context \<Rightarrow> thread_context" where
  "thread_fetch t =
     (if pc (state t) \<ge> MEMORY_SIZE then t\<lparr>pipeline := (pipeline t)\<lparr>slot_F := None\<rparr>\<rparr>
      else
        let (instruction, m) = mc_read (thread_memory t) (pc (state t))
        in t\<lparr>thread_memory := m,
             pipeline := (pipeline t)\<lparr>slot_F := Some instruction\<rparr>,
             state := (state t)\<lparr>pc := pc (state t) + 4\<rparr>\<rparr>)"

definition thread_has_data_hazard :: "thread_context \<Rightarrow> bool" where
  "thread_has_data_hazard t =
     (case (slot_D (pipeline t), slot_E (pipeline t)) of
        (Some d, Some e) \<Rightarrow>
          let d_opcode = opcode_of d;
              d_rs = rs_of d;
              d_rt = rt_of d;
              e_opcode = opcode_of e;
              e_rd = rd_of e
          in if d_opcode \<in> set [0b1000, 0b1001, 0b1010] \<and> (d_rs = e_rd \<or> d_rt = e_rd) then True
             else if d_opcode = 0b1100 \<and> d_rs = e_rd then True
             else False
      | _ \<Rightarrow> False)"

definition thread_pipeline_step :: "thread_context \<Rightarrow> thread_context outcome" where
  "thread_pipeline_step t =
     (let t1 = t\<lparr>step_count := step_count t + 1, modified_registers := {}\<rparr>;
          t2 = (if thread_has_data_hazard t1 then
                  t1\<lparr>pipeline := (pipeline t1)\<lparr>slot_E := None\<rparr>,
                     stall_detected := True, flush_detected := False,
                     log := log t1 @ [LogThreadDataHazard (core_id t1) (thread_id t1)
                                        (step_count t1)]\<rparr>
                else
                  thread_fetch
                    (t1\<lparr>stall_detected := False, flush_detected := False,
                        pipeline := (pipeline t1)\<lparr>slot_E := slot_D (pipeline t1),
                                                   slot_D := slot_F (pipeline t1)\<rparr>\<rparr>))
      in case (case slot_E (pipeline t2) of
                 None \<Rightarrow> Inr t2
               | Some e \<Rightarrow> thread_execute_instruction (t2\<lparr>current_instruction := e\<rparr>)) of
           Inl err \<Rightarrow> Inl err
         | Inr t3 \<Rightarrow>
             if pc_changed t3 then
               Inr (t3\<lparr>pipeline := (pipeline t3)\<lparr>slot_F := None, slot_D := None\<rparr>,
                      flush_detected := True, stall_detected := False, pc_changed := False,
                      log := log t3 @ [LogThreadControlHazard (core_id t3) (thread_id t3)
                                         (step_count t3)]\<rparr>)
             else Inr t3)"

subsection \<open>The hazard rule as the specification words it\<close>

text \<open>
  The write-producers the specification lists: ADD, SUB, MUL, MOV, LOAD, AND and XOR, under
  the opcode numbers of the base dictionary.
\<close>

definition write_producer :: "int \<Rightarrow> bool" where
  "write_producer w \<longleftrightarrow>
     opcode_of w \<in> set [0b1000, 0b1001, 0b1010, 0b1101, 0b1100, 0b1111, 0b1110]"

text \<open>
  The rule in the specification's words: D holds ADD, SUB or MUL whose rs or rt, or BEQ or
  LOAD whose rs, equals the rd field of a write-producer held in E.
\<close>

definition claimed_hazard :: "int option \<Rightarrow> int option \<Rightarrow> bool" where
  "claimed_hazard d e =
     (case (d, e) of
        (Some dw, Some ew) \<Rightarrow>
          write_producer ew \<and>
          ((opcode_of dw \<in> set [0b1000, 0b1001, 0b1010] \<and>
              (rs_of dw = rd_of ew \<or> rt_of dw = rd_of ew))
           \<or> (opcode_of dw \<in> set [0b0110, 0b1100] \<and> rs_of dw = rd_of ew))
      | _ \<Rightarrow> False)"

subsection \<open>Consecutive cycles\<close>

text \<open>
  A driver calls \<open>pipeline_step\<close> once per cycle; an exception ends the sequence. These
  run \<open>n\<close> cycles of one pipeline.
\<close>

fun thread_cycles :: "nat \<Rightarrow> thread_context \<Rightarrow> thread_context outcome" where
  "thread_cycles 0 t = Inr t"
| "thread_cycles (Suc n) t =
     (case thread_pipeline_step t of Inl err \<Rightarrow> Inl err | Inr t1 \<Rightarrow> thread_cycles n t1)"

fun phase4_cycles :: "nat \<Rightarrow> 'a pipelined_scheme \<Rightarrow> 'a pipelined_scheme outcome" where
  "phase4_cycles 0 s = Inr s"
| "phase4_cycles (Suc n) s =
     (case phase4_pipeline_step s of Inl err \<Rightarrow> Inl err | Inr s1 \<Rightarrow> phase4_cycles n s1)"

section \<open>Concrete machine states\<close>

text \<open>A sequential machine with R1 = 3 and R2 = 5 that has fetched \<open>CMP R1, R2\<close>.\<close>

definition flags_example :: sim where
  "flags_example =
     initial_sim\<lparr>state := initial_cpu_state\<lparr>registers := [0, 3, 5] @ replicate 13 0\<rparr>,
                 current_instruction := make_instruction 0b0111 0 1 2 0\<rparr>"


text \<open>
  A sequential machine with Z set that has fetched \<open>BEQ\<close> with immediate \<open>0x10\<close> from address
  4, so that its PC is already 8.
\<close>

definition beq_example :: sim where
  "beq_example =
     initial_sim\<lparr>state := initial_cpu_state\<lparr>pc := 8,
                    flags := \<lparr>flag_Z = True, flag_C = False, flag_N = False\<rparr>\<rparr>,
                 current_instruction := make_instruction 0b0110 0 0 0 0x10\<rparr>"

text \<open>
  Pipelines holding \<open>MOV R1, #5\<close> in E, with \<open>BEQ\<close> (rs = 1) in D for a thread and
  \<open>LOAD R2, [R1+0]\<close> in D for the single-core pipeline.
\<close>

definition hazard_example_thread :: thread_context where
  "hazard_example_thread =
     (thread_init 0 0 (memory_controller_init MEMORY_SIZE))
       \<lparr>pipeline := \<lparr>slot_F = None, slot_D = Some (make_instruction 0b0110 0 1 0 8),
                      slot_E = Some (make_instruction 0b1101 1 0 0 5)\<rparr>\<rparr>"

definition hazard_example_phase4 :: pipelined where
  "hazard_example_phase4 =
     phase4_init
       \<lparr>pipeline := \<lparr>slot_F = None, slot_D = Some (make_instruction 0b1100 2 1 0 0),
                      slot_E = Some (make_instruction 0b1101 1 0 0 5)\<rparr>\<rparr>"

text \<open>Pipelines holding \<open>ADD R3, R2, R1\<close> in D behind \<open>ADD R2, R1, R1\<close> in E.\<close>

definition stall_example_thread :: thread_context where
  "stall_example_thread =
     (thread_init 0 0 (memory_controller_init MEMORY_SIZE))
       \<lparr>pipeline := \<lparr>slot_F = Some (make_instruction 0b0011 0 0 0 0),
                      slot_D = Some (make_instruction 0b1000 3 2 1 0),
                      slot_E = Some (make_instruction 0b1000 2 1 1 0)\<rparr>\<rparr>"

definition stall_example_phase4 :: pipelined where
  "stall_example_phase4 =
     phase4_init
       \<lparr>pipeline := \<lparr>slot_F = Some (make_instruction 0b0011 0 0 0 0),
                      slot_D = Some (make_instruction 0b1000 3 2 1 0),
                      slot_E = Some (make_instruction 0b1000 2 1 1 0)\<rparr>,
        modified_registers := {2}\<rparr>"

text \<open>
  The data-hazard program of the example menu, \<open>MOV R1, #10; ADD R2, R1, R1;
  ADD R3, R2, R1; HALT\<close>, loaded at 0 into a fresh single-core pipeline.
\<close>

definition hazard_program :: "int list" where
  "hazard_program =
     [make_instruction 0b1101 1 0 0 10, make_instruction 0b1000 2 1 1 0,
      make_instruction 0b1000 3 2 1 0, make_instruction 0b0011 0 0 0 0]"

definition hazard_loaded_phase4 :: pipelined where
  "hazard_loaded_phase4 = load_program phase4_init hazard_program 0"

text \<open>
  A thread on a fresh 1024-byte controller, with \<open>CALL 0x20; HALT\<close> loaded at 0 through its
  own \<open>load_program\<close>.
\<close>

definition call_program :: "int list" where
  "call_program = [make_instruction 0b0001 0 0 0 0x20, make_instruction 0b0011 0 0 0 0]"

definition call_loaded_thread :: "(error \<times> thread_context) + (bool \<times> thread_context)" where
  "call_loaded_thread =
     thread_load_program (thread_init 0 0 (memory_controller_init MEMORY_SIZE)) call_program 0"

text \<open>
  A thread with R3 = 0x300 and R6 = 42 whose D slot holds the word
  \<open>make_instruction(0b10000, rs=3, rt=6)\<close>, the STORE of the matrix workload.
\<close>

definition store_example_thread :: thread_context where
  "store_example_thread =
     (thread_init 0 0 (memory_controller_init MEMORY_SIZE))
       \<lparr>state := initial_cpu_state\<lparr>registers := (replicate 16 0)[3 := 0x300, 6 := 42],
                                    pc := MEMORY_SIZE\<rparr>,
        pipeline := \<lparr>slot_F = None, slot_D = Some (make_instruction 0b10000 0 3 6 0),
                      slot_E = None\<rparr>\<rparr>"

text \<open>The single-core pipeline three cycles into the data-hazard program.\<close>

definition hazard_trace_phase4 :: pipelined where
  "hazard_trace_phase4 = outcome_state (phase4_cycles 3 hazard_loaded_phase4)"


text \<open>The ALU test of the menu without its register presets: \<open>ADD R1, R2, R3; HALT\<close>.\<close>

definition alu_test_program :: "int list" where
  "alu_test_program = [make_instruction 0b1000 1 2 3 0, make_instruction 0b0011 0 0 0 0]"

text \<open>
  A thread with R3 = 0x300 and R6 = 42 (registers preset from outside, as the matrix workload
  presets R15) that loads the one-word program \<open>STORE [R3] = R6\<close> at 0 through its own
  \<open>load_program\<close>.
\<close>

definition store_loaded_thread :: "(error \<times> thread_context) + (bool \<times> thread_context)" where
  "store_loaded_thread =
     thread_load_program
       ((thread_init 0 0 (memory_controller_init MEMORY_SIZE))
          \<lparr>state := initial_cpu_state\<lparr>registers := (replicate 16 0)[3 := 0x300, 6 := 42]\<rparr>\<rparr>)
       [make_instruction 0b10000 0 3 6 0] 0"
section \<open>Codec round trip\<close>

lemma and_15_take_bit: "(x::int) AND 15 = take_bit 4 x"
  using take_bit_eq_mask [of 4 x] by (simp add: mask_eq_exp_minus_1)

lemma and_ffff_take_bit: "(x::int) AND 0xFFFF = take_bit 16 x"
  using take_bit_eq_mask [of 16 x] by (simp add: mask_eq_exp_minus_1)

lemma and_32_take_bit: "(x::int) AND 0xFFFFFFFF = take_bit 32 x"
  using take_bit_eq_mask [of 32 x] by (simp add: mask_eq_exp_minus_1)

lemma nibble_take_bit: "0 \<le> (x::int) \<Longrightarrow> x < 16 \<Longrightarrow> take_bit 4 x = x"
  by (simp add: take_bit_int_eq_self)

lemma decode_make_take_bit:
  "decode_fields
     (make_instruction (take_bit 4 opc) (take_bit 4 rd) (take_bit 4 rs) (take_bit 4 rt) imm)
   = (take_bit 4 opc, take_bit 4 rd, take_bit 4 rs, take_bit 4 rt, imm AND 0xFFFF)"
  unfolding decode_fields_def make_instruction_def opcode_of_def rd_of_def rs_of_def
    rt_of_def imm_of_def and_15_take_bit and_ffff_take_bit prod.inject
  by (intro conjI; rule bit_eqI) (auto simp add: bit_simps)

text \<open>
  C6. For opcode and register fields in \<open>0..15\<close> and any immediate, decoding the word built
  by \<open>make_instruction\<close> with the shift-and-mask extractions gives back the opcode, the
  three register fields and the low 16 bits of the immediate.
\<close>

theorem decode_make_instruction:
  assumes "0 \<le> opc" "opc < 16" "0 \<le> rd" "rd < 16" "0 \<le> rs" "rs < 16" "0 \<le> rt" "rt < 16"
  shows "decode_fields (make_instruction opc rd rs rt imm) = (opc, rd, rs, rt, imm AND 0xFFFF)"
  using decode_make_take_bit [of opc rd rs rt imm] assms by (simp add: nibble_take_bit)

theorem decode_make_instruction_witness:
  "decode_fields (make_instruction 0b1000 2 1 15 0x12345) = (0b1000, 2, 1, 15, 0x12345 AND 0xFFFF)"
  using decode_make_instruction [of "0b1000" 2 1 15 "0x12345"] by simp


section \<open>Condition flags\<close>

lemma bit31_test: "(drop_bit 31 (x::int) AND 1 = 1) = bit x 31"
  by (simp add: and_one_eq bit_iff_odd_drop_bit odd_iff_mod_2_eq_one)

lemma low32_mod: "(x::int) AND 0xFFFFFFFF = x mod 2 ^ 32"
  by (simp add: and_32_take_bit take_bit_eq_mod)

lemma bit31_mod: "bit ((x::int) mod 2 ^ 32) 31 = bit x 31"
  using bit_take_bit_iff [of 32 x 31] by (simp add: take_bit_eq_mod)

lemma diff_zero_mod:
  assumes "0 \<le> a" "a < 2 ^ 32" "0 \<le> b" "b < 2 ^ 32"
  shows "((a::int) - b = 0) = ((a - b) mod 2 ^ 32 = 0)"
proof
  assume m: "(a - b) mod 2 ^ 32 = 0"
  show "a - b = 0"
  proof (cases "b \<le> a")
    case True
    then have "0 \<le> a - b" "a - b < 2 ^ 32" using assms by linarith+
    then have "(a - b) mod 2 ^ 32 = a - b" by (simp add: mod_pos_pos_trivial)
    with m show ?thesis by simp
  next
    case False
    then have "0 \<le> b - a" "b - a < 2 ^ 32" using assms by linarith+
    then have e: "(b - a) mod 2 ^ 32 = b - a" by (simp add: mod_pos_pos_trivial)
    from m have "(2::int) ^ 32 dvd a - b" by (simp only: dvd_eq_mod_eq_0)
    then have "(2::int) ^ 32 dvd - (a - b)" by (simp only: dvd_minus_iff)
    then have "(2::int) ^ 32 dvd b - a" by simp
    then have "(b - a) mod 2 ^ 32 = 0" by (simp only: dvd_eq_mod_eq_0)
    with e show ?thesis by simp
  qed
qed simp

lemma alu_commit:
  fixes s :: "'a sim_scheme"
  assumes "alu_operation op (rd, rs, rt) s = Inr s'"
    and "registers (state s) ! nat rs = a" "registers (state s) ! nat rt = b"
  shows "\<exists>full. alu_result op a b = Some full \<and>
           flags (state s') = \<lparr>flag_Z = (full AND 0xFFFFFFFF = 0),
                                 flag_C = alu_carry op a b (flag_C (flags (state s))),
                                 flag_N = (drop_bit 31 (full AND 0xFFFFFFFF) AND 1 = 1)\<rparr>"
proof (cases "alu_result op a b")
  case None
  with assms show ?thesis
    by (simp add: alu_operation_def Let_def split: if_splits)
next
  case (Some full)
  with assms show ?thesis
    by (auto simp add: alu_operation_def Let_def split: if_splits)
qed

lemma cmp_commit:
  fixes s :: "'a sim_scheme"
  shows "\<exists>s'. cmp s = Inr s' \<and>
     flags (state s') =
       (let a = registers (state s) ! nat (rs_of (current_instruction s));
            b = registers (state s) ! nat (rt_of (current_instruction s))
        in \<lparr>flag_Z = (a - b = 0), flag_C = (b > a), flag_N = (drop_bit 31 (a - b) AND 1 = 1)\<rparr>)"
  by (simp add: cmp_def Let_def)

text \<open>
  C5. In a state with its 16 registers, with both operand registers holding values in
  \<open>[0, 2\<^sup>3\<^sup>2)\<close>: whenever an ALU operation
  commits (it is then one of ADD, SUB, MUL, DIV, AND, OR, XOR), Z is whether the low 32
  bits of its result are zero and N is bit 31 of those low 32 bits, and after SUB the C
  flag is \<open>regs[rt] > regs[rs]\<close>; CMP always commits, with Z and N taken in the same way
  from \<open>regs[rs] - regs[rt]\<close> and C equal to \<open>regs[rt] > regs[rs]\<close>.
\<close>

theorem flags_after_alu_and_cmp:
  fixes s :: "'a sim_scheme"
  assumes "0 \<le> a" "a < 2 ^ 32" "0 \<le> b" "b < 2 ^ 32"
    and "registers (state s) ! nat rs = a" "registers (state s) ! nat rt = b"
    and "length (registers (state s)) = 16" "0 \<le> rs" "rs < 16" "0 \<le> rt" "rt < 16"
  shows "(\<forall>s'. alu_operation op (rd, rs, rt) s = Inr s' \<longrightarrow>
            (\<exists>full. alu_result op a b = Some full \<and>
               flag_Z (flags (state s')) = (full mod 2 ^ 32 = 0) \<and>
               flag_N (flags (state s')) = bit (full mod 2 ^ 32) 31 \<and>
               (op = ''SUB'' \<longrightarrow> flag_C (flags (state s')) = (b > a))))
       \<and> (rs_of (current_instruction s) = rs \<and> rt_of (current_instruction s) = rt \<longrightarrow>
            (\<exists>s'. cmp s = Inr s' \<and>
               flag_Z (flags (state s')) = ((a - b) mod 2 ^ 32 = 0) \<and>
               flag_N (flags (state s')) = bit ((a - b) mod 2 ^ 32) 31 \<and>
               flag_C (flags (state s')) = (b > a)))"
proof (intro conjI allI impI)
  fix s' assume "alu_operation op (rd, rs, rt) s = Inr s'"
  from alu_commit [OF this assms(5,6)] obtain full where
    f: "alu_result op a b = Some full"
    and fl: "flags (state s') = \<lparr>flag_Z = (full AND 0xFFFFFFFF = 0),
                                 flag_C = alu_carry op a b (flag_C (flags (state s))),
                                 flag_N = (drop_bit 31 (full AND 0xFFFFFFFF) AND 1 = 1)\<rparr>"
    by (elim exE conjE)
  have z: "flag_Z (flags (state s')) = (full mod 2 ^ 32 = 0)"
    by (simp only: fl flag_bank.simps low32_mod)
  have n: "flag_N (flags (state s')) = bit (full mod 2 ^ 32) 31"
    by (simp only: fl flag_bank.simps bit31_test low32_mod)
  have c: "op = ''SUB'' \<longrightarrow> flag_C (flags (state s')) = (b > a)"
    by (simp only: fl flag_bank.simps alu_carry_def) simp
  from f z n c show "\<exists>full. alu_result op a b = Some full \<and>
               flag_Z (flags (state s')) = (full mod 2 ^ 32 = 0) \<and>
               flag_N (flags (state s')) = bit (full mod 2 ^ 32) 31 \<and>
               (op = ''SUB'' \<longrightarrow> flag_C (flags (state s')) = (b > a))"
    by (intro exI [of _ full] conjI)
next
  assume r: "rs_of (current_instruction s) = rs \<and> rt_of (current_instruction s) = rt"
  let ?s' = "s\<lparr>state := (state s)\<lparr>flags := \<lparr>flag_Z = (a - b = 0), flag_C = (b > a),
                                        flag_N = (drop_bit 31 (a - b) AND 1 = 1)\<rparr>\<rparr>,
               log := log s @ [LogCmp (step_count s) rs a rt b]\<rparr>"
  have c: "cmp s = Inr ?s'"
    using r assms(5,6) by (simp add: cmp_def Let_def)
  have fl: "flags (state ?s') =
       \<lparr>flag_Z = (a - b = 0), flag_C = (b > a), flag_N = (drop_bit 31 (a - b) AND 1 = 1)\<rparr>"
    by simp
  have z0: "flag_Z (flags (state ?s')) = (a - b = 0)"
    by (simp only: fl flag_bank.simps)
  have z: "flag_Z (flags (state ?s')) = ((a - b) mod 2 ^ 32 = 0)"
    by (rule trans [OF z0 diff_zero_mod [OF assms(1-4)]])
  have n0: "flag_N (flags (state ?s')) = (drop_bit 31 (a - b) AND 1 = 1)"
    by (simp only: fl flag_bank.simps)
  have n: "flag_N (flags (state ?s')) = bit ((a - b) mod 2 ^ 32) 31"
    by (rule trans [OF n0]) (simp only: bit31_test bit31_mod)
  have g: "flag_C (flags (state ?s')) = (b > a)"
    by (simp only: fl flag_bank.simps)
  from c z n g show "\<exists>s'. cmp s = Inr s' \<and>
               flag_Z (flags (state s')) = ((a - b) mod 2 ^ 32 = 0) \<and>
               flag_N (flags (state s')) = bit ((a - b) mod 2 ^ 32) 31 \<and>
               flag_C (flags (state s')) = (b > a)"
    by (intro exI [of _ ?s'] conjI)
qed


lemma flags_example_fields: "rs_of (make_instruction 0b0111 0 1 2 0) = 1" "rt_of (make_instruction 0b0111 0 1 2 0) = 2"
  by (simp_all add: rs_of_def rt_of_def make_instruction_def)

theorem flags_after_alu_and_cmp_witness:
  "(\<exists>s'. alu_operation ''SUB'' (0, 1, 2) flags_example = Inr s' \<and>
         \<not> flag_Z (flags (state s')) \<and> flag_N (flags (state s')) \<and> flag_C (flags (state s')))
   \<and> (\<exists>s'. cmp flags_example = Inr s' \<and>
         \<not> flag_Z (flags (state s')) \<and> flag_N (flags (state s')) \<and> flag_C (flags (state s')))"
proof -
  have r: "registers (state flags_example) ! nat 1 = 3" "registers (state flags_example) ! nat 2 = 5"
    by (simp_all add: flags_example_def)
  have i: "rs_of (current_instruction flags_example) = 1 \<and> rt_of (current_instruction flags_example) = 2"
    by (simp add: flags_example_def flags_example_fields)
  have l: "length (registers (state flags_example)) = 16"
    by (simp add: flags_example_def)
  note t = flags_after_alu_and_cmp [of 3 5 flags_example 1 2 "''SUB''" 0, OF _ _ _ _ r l]
  have m: "((3::int) - 5) mod 2 ^ 32 = 4294967294" by simp
  have b: "bit (4294967294::int) 31" by simp
  obtain s1 where c1: "alu_operation ''SUB'' (0, 1, 2) flags_example = Inr s1"
    by (simp add: alu_operation_def alu_result_def Let_def r)
  have a1: "alu_result ''SUB'' 3 5 = Some (-2)" by (simp add: alu_result_def)
  from t c1 a1 m b have "\<not> flag_Z (flags (state s1)) \<and> flag_N (flags (state s1)) \<and> flag_C (flags (state s1))"
    by simp
  with c1 have p1: "\<exists>s'. alu_operation ''SUB'' (0, 1, 2) flags_example = Inr s' \<and>
         \<not> flag_Z (flags (state s')) \<and> flag_N (flags (state s')) \<and> flag_C (flags (state s'))"
    by (intro exI [of _ s1] conjI) simp_all
  from t i m b have p2: "\<exists>s'. cmp flags_example = Inr s' \<and>
         \<not> flag_Z (flags (state s')) \<and> flag_N (flags (state s')) \<and> flag_C (flags (state s'))"
    by simp
  from p1 p2 show ?thesis by (rule conjI)
qed


section \<open>Branch targets\<close>

lemma and_8000_bit: "((x::int) AND 0x8000 \<noteq> 0) = bit x 15"
  using and_exp_eq_0_iff_not_bit [of x 15] by simp

lemma sign_extend_16_signed: "sign_extend_16 (x AND 0xFFFF) = signed_take_bit 15 x"
proof -
  have b: "bit (take_bit 16 x) 15 = bit x 15" by (simp add: bit_take_bit_iff)
  show ?thesis
    unfolding sign_extend_16_def and_ffff_take_bit and_8000_bit b
    by (simp add: signed_take_bit_eq_take_bit_minus)
qed

text \<open>
  C4, as amended. Executing BEQ always commits. In phase5.py (all three substrates), with
  Z set the PC becomes \<open>(PC - 4)\<close> plus the sign-extended low 16 bits of the word, where
  PC is the already advanced value. In the standalone phase3.py, with Z set the PC becomes
  the low 24 bits of the word. With Z clear the PC is unchanged in both.
\<close>

theorem beq_sets_pc:
  fixes s :: "'a sim_scheme"
  shows "(\<exists>s'. beq s = Inr s' \<and>
            pc (state s') =
              (if flag_Z (flags (state s))
               then (pc (state s) - 4) + signed_take_bit 15 (imm_of (current_instruction s))
               else pc (state s)))
       \<and> (\<exists>s'. p3_beq s = Inr s' \<and>
            pc (state s') =
              (if flag_Z (flags (state s)) then current_instruction s AND 0x00FFFFFF
               else pc (state s)))"
proof -
  have i: "signed_take_bit 15 (imm_of (current_instruction s))
             = sign_extend_16 (current_instruction s AND 0xFFFF)"
    by (simp add: sign_extend_16_signed [unfolded and_ffff_take_bit] imm_of_def
        and_ffff_take_bit signed_take_bit_take_bit)
  show ?thesis
    unfolding i by (simp add: beq_def p3_beq_def Let_def)
qed

text \<open>
  C4 as stated fails on phase3.py: with Z set and PC = 8 after the fetch, BEQ with immediate
  \<open>0x10\<close> sets the PC to \<open>0x10\<close>, not to \<open>(8 - 4) + 0x10 = 0x14\<close>.
\<close>

theorem phase3_beq_counterexample:
  "flag_Z (flags (state beq_example))
   \<and> pc (state (outcome_state (p3_beq beq_example))) = 0x10
   \<and> (pc (state beq_example) - 4) + signed_take_bit 15 (imm_of (current_instruction beq_example)) = 0x14"
  by (simp add: beq_example_def initial_sim_def initial_cpu_state_def p3_beq_def
      outcome_state_def make_instruction_def imm_of_def Let_def)

theorem beq_sets_pc_witness:
  "(\<exists>s'. beq beq_example = Inr s' \<and> pc (state s') = 0x14)
   \<and> (\<exists>s'. p3_beq beq_example = Inr s' \<and> pc (state s') = 0x10)"
proof -
  have z: "flag_Z (flags (state beq_example))" "pc (state beq_example) = 8"
    by (simp_all add: beq_example_def initial_sim_def)
  have i: "signed_take_bit 15 (imm_of (current_instruction beq_example)) = 0x10"
    "current_instruction beq_example AND 0x00FFFFFF = 0x10"
    by (simp_all add: beq_example_def make_instruction_def imm_of_def)
  show ?thesis
    using beq_sets_pc [of beq_example] unfolding i by (simp add: z)
qed


section \<open>Data hazard detection\<close>

text \<open>
  C3, as amended. When E holds a bubble or a write-producer (ADD, SUB, MUL, MOV, LOAD, AND,
  XOR): \<open>ThreadContext.has_data_hazard\<close> is true exactly when D and E both hold words
  and D is ADD, SUB or MUL whose rs or rt, or LOAD whose rs, equals the rd field of E;
  \<open>Phase4Simulator.has_data_hazard\<close> is true exactly when D and E both hold words and D is
  ADD, SUB or MUL whose rs or rt, or BEQ whose rs, equals the rd field of E.
\<close>

theorem has_data_hazard_consumers:
  fixes t :: thread_context and s :: "'a pipelined_scheme"
  assumes "\<forall>ew. e = Some ew \<longrightarrow> write_producer ew"
    and "slot_D (pipeline t) = d" "slot_E (pipeline t) = e"
    and "slot_D (pipeline s) = d" "slot_E (pipeline s) = e"
  shows "thread_has_data_hazard t =
           (\<exists>dw ew. d = Some dw \<and> e = Some ew \<and>
              ((opcode_of dw \<in> set [0b1000, 0b1001, 0b1010] \<and>
                  (rs_of dw = rd_of ew \<or> rt_of dw = rd_of ew))
               \<or> (opcode_of dw = 0b1100 \<and> rs_of dw = rd_of ew)))
       \<and> phase4_has_data_hazard s =
           (\<exists>dw ew. d = Some dw \<and> e = Some ew \<and>
              ((opcode_of dw \<in> set [0b1000, 0b1001, 0b1010] \<and>
                  (rs_of dw = rd_of ew \<or> rt_of dw = rd_of ew))
               \<or> (opcode_of dw = 0b0110 \<and> rs_of dw = rd_of ew)))"
proof (cases d)
  case None
  with assms(2-5) show ?thesis
    by (simp add: thread_has_data_hazard_def phase4_has_data_hazard_def)
next
  case (Some dw)
  note d = this
  show ?thesis
  proof (cases e)
    case None
    with d assms(2-5) show ?thesis
      by (simp add: thread_has_data_hazard_def phase4_has_data_hazard_def)
  next
    case (Some ew)
    with d assms(2-5) show ?thesis
      by (simp add: thread_has_data_hazard_def phase4_has_data_hazard_def Let_def)
  qed
qed

lemma example_words:
  "opcode_of (make_instruction 0b1000 3 2 1 0) = 0b1000"
  "rs_of (make_instruction 0b1000 3 2 1 0) = 2"
  "rt_of (make_instruction 0b1000 3 2 1 0) = 1"
  "opcode_of (make_instruction 0b1000 2 1 1 0) = 0b1000"
  "rd_of (make_instruction 0b1000 2 1 1 0) = 2"
  "opcode_of (make_instruction 0b0110 0 1 0 8) = 0b0110"
  "rs_of (make_instruction 0b0110 0 1 0 8) = 1"
  "opcode_of (make_instruction 0b1100 2 1 0 0) = 0b1100"
  "rs_of (make_instruction 0b1100 2 1 0 0) = 1"
  "opcode_of (make_instruction 0b1101 1 0 0 5) = 0b1101"
  "rd_of (make_instruction 0b1101 1 0 0 5) = 1"
  by (simp_all add: make_instruction_def opcode_of_def rs_of_def rt_of_def rd_of_def)

theorem has_data_hazard_consumers_witness:
  "write_producer (make_instruction 0b1000 2 1 1 0)
   \<and> thread_has_data_hazard stall_example_thread
   \<and> phase4_has_data_hazard stall_example_phase4"
proof -
  have w: "write_producer (make_instruction 0b1000 2 1 1 0)"
    by (simp add: write_producer_def example_words)
  then have a: "\<forall>ew. Some (make_instruction 0b1000 2 1 1 0) = Some ew \<longrightarrow> write_producer ew"
    by simp
  have p: "slot_D (pipeline stall_example_thread) = Some (make_instruction 0b1000 3 2 1 0)"
    "slot_E (pipeline stall_example_thread) = Some (make_instruction 0b1000 2 1 1 0)"
    "slot_D (pipeline stall_example_phase4) = Some (make_instruction 0b1000 3 2 1 0)"
    "slot_E (pipeline stall_example_phase4) = Some (make_instruction 0b1000 2 1 1 0)"
    by (simp_all add: stall_example_thread_def stall_example_phase4_def)
  from has_data_hazard_consumers [OF a p] w show ?thesis
    by (simp add: example_words)
qed

text \<open>
  C3 as stated fails. With \<open>MOV R1, #5\<close> in E, the rule as worded declares a hazard for
  \<open>BEQ\<close> with rs = 1 in D and for \<open>LOAD R2, [R1+0]\<close> in D; the thread's test returns
  false for the first and the single-core pipeline's test returns false for the second.
\<close>

theorem has_data_hazard_counterexample:
  "claimed_hazard (slot_D (pipeline hazard_example_thread)) (slot_E (pipeline hazard_example_thread))
   \<and> \<not> thread_has_data_hazard hazard_example_thread
   \<and> claimed_hazard (slot_D (pipeline hazard_example_phase4)) (slot_E (pipeline hazard_example_phase4))
   \<and> \<not> phase4_has_data_hazard hazard_example_phase4"
  by (simp add: hazard_example_thread_def hazard_example_phase4_def claimed_hazard_def
      write_producer_def thread_has_data_hazard_def phase4_has_data_hazard_def example_words
      Let_def)


section \<open>What the pipeline executes\<close>

lemma opcode_of_range: "0 \<le> opcode_of w \<and> opcode_of w < 16"
proof -
  have "opcode_of w = take_bit 4 (drop_bit 28 w)"
    by (simp add: opcode_of_def and_15_take_bit)
  then show ?thesis
    using take_bit_int_less_exp [of 4 "drop_bit 28 w"] by simp
qed

lemma opcode_of_not_store: "opcode_of w \<noteq> 0b10000"
  using opcode_of_range [of w] by simp

lemma store_tag_opcode_take_bit:
  "opcode_of (make_instruction 0b10000 (take_bit 4 rd) (take_bit 4 rs) (take_bit 4 rt) imm) = 0"
proof -
  have p: "push_bit 28 (16::int) = push_bit 32 1" by simp
  show ?thesis
    unfolding opcode_of_def make_instruction_def and_15_take_bit and_ffff_take_bit p
    by (rule bit_eqI) (auto simp add: bit_simps)
qed

lemma store_tag_opcode:
  assumes "0 \<le> rd" "rd < 16" "0 \<le> rs" "rs < 16" "0 \<le> rt" "rt < 16"
  shows "opcode_of (make_instruction 0b10000 rd rs rt imm) = 0"
  using store_tag_opcode_take_bit [of rd rs rt imm] assms by (simp add: nibble_take_bit)

lemma alu_operation_more: "sim.more (outcome_state (alu_operation op operands s)) = sim.more s"
  by (cases operands)
     (simp add: alu_operation_def outcome_state_def Let_def split: option.split)

lemma opcodes_more:
  assumes "opcodes k = Some handler"
  shows "sim.more (outcome_state (handler s)) = sim.more s"
proof -
  have "handler \<in> {nop, call, ret, halt, push, pop, beq, cmp, add_op, sub_op, mul_op, div_op,
                   load, mov, xor_op, and_op, store}"
    using assms by (simp add: opcodes_def split: if_splits)
  then show ?thesis
    using alu_operation_more [of _ _ s]
    by (elim insertE emptyE)
       (simp_all add: nop_def call_def ret_def halt_def push_def pop_def beq_def cmp_def
          add_op_def sub_op_def mul_op_def div_op_def and_op_def xor_op_def load_def mov_def
          store_def outcome_state_def Let_def)
qed

lemma thread_execute_instruction_more:
  "sim.more (outcome_state (thread_execute_instruction t)) = sim.more t"
proof (cases "slot_E (pipeline t)")
  case None
  then show ?thesis by (simp add: thread_execute_instruction_def outcome_state_def)
next
  case (Some e)
  show ?thesis
  proof (cases "opcodes (opcode_of e) :: (thread_context \<Rightarrow> thread_context outcome) option")
    case None
    with Some show ?thesis
      by (simp add: thread_execute_instruction_def outcome_state_def opcode_of_not_store)
  next
    case (Some handler)
    with \<open>slot_E (pipeline t) = Some e\<close> opcodes_more [OF Some, of t] show ?thesis
      by (simp add: thread_execute_instruction_def opcode_of_not_store)
  qed
qed


section \<open>The stall cycle\<close>

text \<open>
  C10, as amended. In a thread and in the single-core pipeline, a cycle in which
  \<open>has_data_hazard\<close> is true and \<open>pc_changed\<close> is clear returns normally, and the state
  after it is the state before it with the step counter advanced, the E slot a bubble,
  \<open>stall_detected\<close> set, \<open>flush_detected\<close> clear, one stall line appended to the log and the
  \<open>modified_registers\<close> set emptied. Nothing else changes: the registers, flags, stack, PC,
  memory, halted bit, the shared controller and the D and F slots are as before.
\<close>

theorem hazard_cycle_frame:
  fixes t :: thread_context and s :: "'a pipelined_scheme"
  shows "(thread_has_data_hazard t \<and> \<not> pc_changed t \<longrightarrow>
            thread_pipeline_step t =
              Inr (t\<lparr>step_count := step_count t + 1, modified_registers := {},
                     pipeline := (pipeline t)\<lparr>slot_E := None\<rparr>,
                     stall_detected := True, flush_detected := False,
                     log := log t @ [LogThreadDataHazard (core_id t) (thread_id t)
                                       (step_count t + 1)]\<rparr>))
       \<and> (phase4_has_data_hazard s \<and> \<not> pc_changed s \<longrightarrow>
            phase4_pipeline_step s =
              Inr (s\<lparr>step_count := step_count s + 1, modified_registers := {},
                     pipeline := (pipeline s)\<lparr>slot_E := None\<rparr>,
                     stall_detected := True, flush_detected := False,
                     log := log s @ [LogDataHazard (step_count s + 1)]\<rparr>))"
proof (intro conjI impI)
  assume a: "thread_has_data_hazard t \<and> \<not> pc_changed t"
  then have h: "thread_has_data_hazard (t\<lparr>step_count := step_count t + 1, modified_registers := {}\<rparr>)"
    by (simp add: thread_has_data_hazard_def)
  show "thread_pipeline_step t =
              Inr (t\<lparr>step_count := step_count t + 1, modified_registers := {},
                     pipeline := (pipeline t)\<lparr>slot_E := None\<rparr>,
                     stall_detected := True, flush_detected := False,
                     log := log t @ [LogThreadDataHazard (core_id t) (thread_id t)
                                       (step_count t + 1)]\<rparr>)"
    using a h by (simp add: thread_pipeline_step_def Let_def)
next
  assume a: "phase4_has_data_hazard s \<and> \<not> pc_changed s"
  then have h: "phase4_has_data_hazard (s\<lparr>step_count := step_count s + 1, modified_registers := {}\<rparr>)"
    by (simp add: phase4_has_data_hazard_def)
  show "phase4_pipeline_step s =
              Inr (s\<lparr>step_count := step_count s + 1, modified_registers := {},
                     pipeline := (pipeline s)\<lparr>slot_E := None\<rparr>,
                     stall_detected := True, flush_detected := False,
                     log := log s @ [LogDataHazard (step_count s + 1)]\<rparr>)"
    using a h by (simp add: phase4_pipeline_step_def Let_def)
qed

lemma stall_words:
  "opcode_of (make_instruction 0b1000 3 2 1 0) = 0b1000"
  "rs_of (make_instruction 0b1000 3 2 1 0) = 2"
  "rt_of (make_instruction 0b1000 3 2 1 0) = 1"
  "rd_of (make_instruction 0b1000 2 1 1 0) = 2"
  by (simp_all add: make_instruction_def opcode_of_def rs_of_def rt_of_def rd_of_def)

theorem hazard_cycle_frame_witness:
  "thread_has_data_hazard stall_example_thread \<and> \<not> pc_changed stall_example_thread
   \<and> (\<exists>t'. thread_pipeline_step stall_example_thread = Inr t'
         \<and> state t' = state stall_example_thread
         \<and> thread_memory t' = thread_memory stall_example_thread
         \<and> slot_D (pipeline t') = slot_D (pipeline stall_example_thread)
         \<and> slot_F (pipeline t') = slot_F (pipeline stall_example_thread)
         \<and> slot_E (pipeline t') = None \<and> stall_detected t' \<and> \<not> flush_detected t')
   \<and> phase4_has_data_hazard stall_example_phase4 \<and> \<not> pc_changed stall_example_phase4
   \<and> (\<exists>s'. phase4_pipeline_step stall_example_phase4 = Inr s'
         \<and> state s' = state stall_example_phase4
         \<and> slot_D (pipeline s') = slot_D (pipeline stall_example_phase4)
         \<and> slot_F (pipeline s') = slot_F (pipeline stall_example_phase4)
         \<and> slot_E (pipeline s') = None \<and> stall_detected s' \<and> \<not> flush_detected s')"
proof -
  have h: "thread_has_data_hazard stall_example_thread" "\<not> pc_changed stall_example_thread"
    "phase4_has_data_hazard stall_example_phase4" "\<not> pc_changed stall_example_phase4"
    by (simp_all add: stall_example_thread_def stall_example_phase4_def thread_init_def
        phase4_init_def thread_has_data_hazard_def phase4_has_data_hazard_def stall_words Let_def)
  from hazard_cycle_frame [of stall_example_thread stall_example_phase4] h
  show ?thesis by simp
qed

lemma hazard_program_words:
  "hazard_program = [0xD100000A, 0x82110000, 0x83210000, 0x30000000]"
  by (simp add: hazard_program_def make_instruction_def)

lemma hazard_trace_phase4_eq:
  "hazard_trace_phase4 =
     \<lparr>state = \<lparr>registers = [0, 10, 0, 0, 0, 0, 0, 0, 0, 0, 0, 0, 0, 0, 0, 0], pc = 12,
                stack = [], flags = \<lparr>flag_Z = False, flag_C = False, flag_N = False\<rparr>,
                memory = [0 \<mapsto> 0xD100000A, 4 \<mapsto> 0x82110000, 8 \<mapsto> 0x83210000,
                          12 \<mapsto> 0x30000000],
                halted = False\<rparr>,
      current_instruction = 0xD100000A, log = [LogMov 3 1 10], breakpoints = [],
      step_count = 3,
      pipeline = \<lparr>slot_F = Some 0x83210000, slot_D = Some 0x82110000,
                   slot_E = Some 0xD100000A\<rparr>,
      stall_detected = False, flush_detected = False, pc_changed = False,
      modified_registers = {1}\<rparr>"
  by (simp add: hazard_trace_phase4_def outcome_state_def eval_nat_numeral
      hazard_loaded_phase4_def hazard_program_words load_program_def
      phase4_init_def initial_cpu_state_def
      phase4_pipeline_step_def phase4_has_data_hazard_def phase4_fetch_def
      phase4_execute_instruction_def opcodes_def opcode_of_def rd_of_def rs_of_def rt_of_def
      mov_def Let_def)

text \<open>
  C10 as stated fails on the single-core pipeline. Three cycles into the data-hazard
  program, \<open>MOV R1\<close> has just executed and \<open>modified_registers\<close> is \<open>{1}\<close>; the next cycle
  is a stall, and it empties that set, which is not among the things the claim lets change.
\<close>

theorem hazard_cycle_frame_counterexample:
  "phase4_has_data_hazard hazard_trace_phase4
   \<and> modified_registers hazard_trace_phase4 = {1}
   \<and> modified_registers (outcome_state (phase4_pipeline_step hazard_trace_phase4)) = {}"
  unfolding hazard_trace_phase4_eq
  by (simp add: phase4_pipeline_step_def phase4_has_data_hazard_def outcome_state_def
      opcode_of_def rd_of_def rs_of_def rt_of_def Let_def)


section \<open>STORE and control transfers in a thread\<close>

lemma thread_more_fields:
  fixes t t' :: thread_context
  assumes "sim.more t' = sim.more t"
  shows "pipeline t' = pipeline t" "stall_detected t' = stall_detected t"
    "flush_detected t' = flush_detected t" "pc_changed t' = pc_changed t"
    "modified_registers t' = modified_registers t" "thread_memory t' = thread_memory t"
    "core_id t' = core_id t" "thread_id t' = thread_id t"
  using assms by (cases t; cases t'; simp)+

lemma store_word: "make_instruction 0b10000 0 3 6 0 = 0x100360000"
  by (simp add: make_instruction_def)

lemma thread_execute_store_tag:
  assumes "slot_E (pipeline t) = Some (make_instruction 0b10000 rd rs rt imm)"
    and "0 \<le> rd" "rd < 16" "0 \<le> rs" "rs < 16" "0 \<le> rt" "rt < 16"
  shows "thread_execute_instruction t = nop t"
  using assms(1) store_tag_opcode [OF assms(2-7), of imm]
  by (simp add: thread_execute_instruction_def opcodes_def)

lemma thread_execute_keeps_memory:
  "thread_memory (outcome_state (thread_execute_instruction t)) = thread_memory t"
  using thread_more_fields(6) [OF thread_execute_instruction_more] .

text \<open>
  C1 fails on the code. A thread with R3 = 0x300 and R6 = 42 advances the word
  \<open>make_instruction(0b10000, rs=3, rt=6)\<close> from D into E and executes it: the masked opcode
  is 0, the handler run is \<open>nop\<close>, the log holds a NOP line and the controller is untouched,
  where the STORE effect would have put 42 at address 0x300.
\<close>

theorem store_executes_as_nop:
  "\<exists>t'. thread_pipeline_step store_example_thread = Inr t'
     \<and> slot_E (pipeline t') = Some (make_instruction 0b10000 0 3 6 0)
     \<and> registers (state t') ! 3 = 0x300 \<and> registers (state t') ! 6 = 42
     \<and> log t' = [LogNop 1]
     \<and> thread_memory t' = memory_controller_init MEMORY_SIZE
     \<and> mc_memory (thread_memory t') ! 0x300 = 0
     \<and> mc_memory (snd (mc_write (memory_controller_init MEMORY_SIZE) 0x300 42)) ! 0x300 = 42"
  by (simp add: store_example_thread_def store_word thread_init_def initial_cpu_state_def
      memory_controller_init_def MEMORY_SIZE_def mc_write_def
      thread_pipeline_step_def thread_has_data_hazard_def thread_fetch_def
      thread_execute_instruction_def opcodes_def opcode_of_def rd_of_def rs_of_def rt_of_def
      nop_def Let_def)

text \<open>
  Through \<open>load_program\<close> the outcome is the same: \<open>bulk_load\<close> masks the word to 32 bits,
  which removes the tag bit, and the third cycle executes the remaining word as NOP.
\<close>

lemma store_program_leaves_memory:
  "\<exists>t0 t3. store_loaded_thread = Inr (True, t0) \<and> thread_cycles 3 t0 = Inr t3
     \<and> slot_E (pipeline t3) = Some 0x00360000
     \<and> log t3 = [LogNop 3]
     \<and> mc_memory (thread_memory t3) ! 0x300 = 0"
  by (simp add: store_loaded_thread_def store_word thread_load_program_def bulk_load_def
      list_setitem_def thread_init_def initial_cpu_state_def
      memory_controller_init_def MEMORY_SIZE_def eval_nat_numeral
      thread_pipeline_step_def thread_has_data_hazard_def thread_fetch_def mc_read_def
      thread_execute_instruction_def opcodes_def opcode_of_def rd_of_def rs_of_def rt_of_def
      nop_def Let_def)

lemma call_words: "call_program = [0x10000020, 0x30000000]"
  by (simp add: call_program_def make_instruction_def)

text \<open>
  C2 fails on the code. A thread loads \<open>CALL 0x20; HALT\<close> and runs three cycles. The third
  executes the CALL in E: the return address is pushed and the PC is redirected, but
  \<open>pc_changed\<close> stays clear, so there is no flush: F and D still hold the words fetched
  behind the CALL, \<open>flush_detected\<close> is false and the log has no control-hazard line.
\<close>

theorem call_does_not_flush:
  "\<exists>t0 t3. call_loaded_thread = Inr (True, t0) \<and> thread_cycles 3 t0 = Inr t3
     \<and> slot_E (pipeline t3) = Some (make_instruction 0b0001 0 0 0 0x20)
     \<and> pc (state t3) = 0x20 \<and> stack (state t3) = [12]
     \<and> log t3 = [LogCall 3 0x20]
     \<and> \<not> pc_changed t3 \<and> \<not> flush_detected t3
     \<and> slot_F (pipeline t3) = Some 0
     \<and> slot_D (pipeline t3) = Some (make_instruction 0b0011 0 0 0 0)"
  by (simp add: call_loaded_thread_def call_words thread_load_program_def bulk_load_def
      list_setitem_def thread_init_def initial_cpu_state_def
      memory_controller_init_def MEMORY_SIZE_def eval_nat_numeral
      thread_pipeline_step_def thread_has_data_hazard_def thread_fetch_def mc_read_def
      thread_execute_instruction_def opcodes_def opcode_of_def rd_of_def rs_of_def rt_of_def
      call_def make_instruction_def Let_def)

text \<open>
  No handler assigns \<open>pc_changed\<close>, so a cycle that starts with it clear ends with it clear
  and never takes the flush branch.
\<close>

lemma thread_pipeline_step_pc_changed:
  assumes "\<not> pc_changed t" and "thread_pipeline_step t = Inr t'"
  shows "\<not> pc_changed t' \<and> \<not> flush_detected t'"
proof -
  define t1 where "t1 = t\<lparr>step_count := step_count t + 1, modified_registers := {}\<rparr>"
  define t2 where "t2 =
    (if thread_has_data_hazard t1 then
       t1\<lparr>pipeline := (pipeline t1)\<lparr>slot_E := None\<rparr>,
          stall_detected := True, flush_detected := False,
          log := log t1 @ [LogThreadDataHazard (core_id t1) (thread_id t1) (step_count t1)]\<rparr>
     else
       thread_fetch
         (t1\<lparr>stall_detected := False, flush_detected := False,
             pipeline := (pipeline t1)\<lparr>slot_E := slot_D (pipeline t1),
                                        slot_D := slot_F (pipeline t1)\<rparr>\<rparr>))"
  have p2: "\<not> pc_changed t2 \<and> \<not> flush_detected t2"
    using assms(1)
    by (simp add: t2_def t1_def thread_fetch_def Let_def split: prod.split)
  show ?thesis
  proof (cases "slot_E (pipeline t2)")
    case None
    with assms(2) p2 show ?thesis
      by (simp add: thread_pipeline_step_def Let_def t2_def [symmetric] t1_def [symmetric])
  next
    case (Some e)
    let ?r = "thread_execute_instruction (t2\<lparr>current_instruction := e\<rparr>)"
    have m: "sim.more (outcome_state ?r) = sim.more (t2\<lparr>current_instruction := e\<rparr>)"
      by (rule thread_execute_instruction_more)
    have q: "\<not> pc_changed (outcome_state ?r) \<and> \<not> flush_detected (outcome_state ?r)"
      using thread_more_fields(3,4) [OF m] p2 by simp
    from assms(2) Some q show ?thesis
      by (cases ?r)
         (auto simp add: thread_pipeline_step_def Let_def t2_def [symmetric] t1_def [symmetric]
            outcome_state_def split: if_splits)
  qed
qed


section \<open>Reset and rerun\<close>

lemma alu_operation_breakpoints:
  "alu_operation op operands (s\<lparr>breakpoints := b\<rparr>)
     = with_breakpoints b (alu_operation op operands s)"
  by (cases operands)
     (simp add: alu_operation_def with_breakpoints_def Let_def split: option.split)

lemma p3_alu_operation_breakpoints:
  "p3_alu_operation op operands (s\<lparr>breakpoints := b\<rparr>)
     = with_breakpoints b (p3_alu_operation op operands s)"
  by (cases operands)
     (simp add: p3_alu_operation_def with_breakpoints_def Let_def split: option.split)

lemma phase3_opcodes_breakpoints:
  assumes "phase3_opcodes k = Some handler"
  shows "handler (s\<lparr>breakpoints := b\<rparr>) = with_breakpoints b (handler s)"
proof -
  have "handler \<in> {nop, call, ret, halt, push, pop, beq, cmp, add_op, sub_op, mul_op, div_op,
                   and_op, or_op, xor_op}"
    using assms by (simp add: phase3_opcodes_def split: if_splits)
  then show ?thesis
    by (elim insertE emptyE)
       (simp_all add: nop_def call_def ret_def halt_def push_def pop_def beq_def cmp_def
          add_op_def sub_op_def mul_op_def div_op_def and_op_def or_op_def xor_op_def
          alu_operation_breakpoints with_breakpoints_def Let_def)
qed

lemma p3_opcodes_breakpoints:
  assumes "p3_opcodes k = Some handler"
  shows "handler (s\<lparr>breakpoints := b\<rparr>) = with_breakpoints b (handler s)"
proof -
  have "handler \<in> {p3_call, ret, halt, push, pop, p3_beq, p3_cmp, p3_add, p3_sub, p3_mul,
                   p3_div, p3_and_op, p3_or_op, p3_xor_op}"
    using assms by (simp add: p3_opcodes_def split: if_splits)
  then show ?thesis
    by (elim insertE emptyE)
       (simp_all add: p3_call_def ret_def halt_def push_def pop_def p3_beq_def p3_cmp_def
          p3_add_def p3_sub_def p3_mul_def p3_div_def p3_and_op_def p3_or_op_def p3_xor_op_def
          p3_alu_operation_breakpoints with_breakpoints_def Let_def)
qed

lemma opcode_table_breakpoints:
  "opcode_table v k = Some handler \<Longrightarrow>
     handler (s\<lparr>breakpoints := b\<rparr>) = with_breakpoints b (handler s)"
  by (cases v) (simp_all add: opcode_table_def phase3_opcodes_breakpoints p3_opcodes_breakpoints)

lemma fetch_breakpoints: "fetch (s\<lparr>breakpoints := b\<rparr>) = with_breakpoints b (fetch s)"
  by (simp add: fetch_def with_breakpoints_def split: option.split)

lemma decode_execute_breakpoints:
  "decode_execute v (s\<lparr>breakpoints := b\<rparr>) = with_breakpoints b (decode_execute v s)"
proof (cases "opcode_table v (opcode_of (current_instruction s))")
  case None
  then show ?thesis by (simp add: decode_execute_def with_breakpoints_def)
next
  case (Some handler)
  show ?thesis
    using Some opcode_table_breakpoints [OF Some, where s = s and b = b]
    by (cases "handler s") (auto simp add: decode_execute_def with_breakpoints_def)
qed


lemma run_loop_stop:
  "halted (state s) \<or> \<not> step_count s < max_steps \<Longrightarrow> run_loop v s max_steps = s"
  by (subst run_loop.simps) auto

lemma run_loop_fetch_raises:
  "\<not> halted (state s) \<Longrightarrow> step_count s < max_steps \<Longrightarrow> fetch s = Inl (e, s1) \<Longrightarrow>
     run_loop v s max_steps = s1\<lparr>log := log s1 @ [LogStopped (step_count s1) e]\<rparr>"
  by (subst run_loop.simps) simp

lemma run_loop_execute_raises:
  "\<not> halted (state s) \<Longrightarrow> step_count s < max_steps \<Longrightarrow> fetch s = Inr s1 \<Longrightarrow>
     decode_execute v s1 = Inl (e, s2) \<Longrightarrow>
     run_loop v s max_steps = s2\<lparr>log := log s2 @ [LogStopped (step_count s2) e]\<rparr>"
  by (subst run_loop.simps) simp

lemma run_loop_continues:
  "\<not> halted (state s) \<Longrightarrow> step_count s < max_steps \<Longrightarrow> fetch s = Inr s1 \<Longrightarrow>
     decode_execute v s1 = Inr s2 \<Longrightarrow>
     run_loop v s max_steps = run_loop v s2 max_steps"
  by (subst run_loop.simps) simp

lemma run_loop_breakpoints:
  "run_loop v (s\<lparr>breakpoints := b\<rparr>) max_steps = (run_loop v s max_steps)\<lparr>breakpoints := b\<rparr>"
proof (induction v s max_steps rule: run_loop.induct)
  case (1 v s max_steps)
  show ?case
  proof (cases "\<not> halted (state s) \<and> step_count s < max_steps")
    case False
    then show ?thesis
      using run_loop_stop [of s max_steps v] run_loop_stop [of "s\<lparr>breakpoints := b\<rparr>" max_steps v]
      by simp
  next
    case True
    then have go: "\<not> halted (state s)" "step_count s < max_steps"
      and go': "\<not> halted (state (s\<lparr>breakpoints := b\<rparr>))"
        "step_count (s\<lparr>breakpoints := b\<rparr>) < max_steps"
      by simp_all
    show ?thesis
    proof (cases "fetch s")
      case (Inl a)
      obtain e s1 where a: "a = (e, s1)" by (cases a)
      have "fetch (s\<lparr>breakpoints := b\<rparr>) = Inl (e, s1\<lparr>breakpoints := b\<rparr>)"
        by (simp add: fetch_breakpoints Inl a with_breakpoints_def)
      from run_loop_fetch_raises [OF go' this] run_loop_fetch_raises [OF go Inl [unfolded a]]
      show ?thesis by simp
    next
      case (Inr s1)
      have f': "fetch (s\<lparr>breakpoints := b\<rparr>) = Inr (s1\<lparr>breakpoints := b\<rparr>)"
        by (simp add: fetch_breakpoints Inr with_breakpoints_def)
      show ?thesis
      proof (cases "decode_execute v s1")
        case (Inl a)
        obtain e s2 where a: "a = (e, s2)" by (cases a)
        have "decode_execute v (s1\<lparr>breakpoints := b\<rparr>) = Inl (e, s2\<lparr>breakpoints := b\<rparr>)"
          by (simp add: decode_execute_breakpoints Inl a with_breakpoints_def)
        from run_loop_execute_raises [OF go' f' this]
          run_loop_execute_raises [OF go \<open>fetch s = Inr s1\<close> Inl [unfolded a]]
        show ?thesis by simp
      next
        case (Inr s2)
        have "decode_execute v (s1\<lparr>breakpoints := b\<rparr>) = Inr (s2\<lparr>breakpoints := b\<rparr>)"
          by (simp add: decode_execute_breakpoints Inr with_breakpoints_def)
        from run_loop_continues [OF go' f' this]
          run_loop_continues [OF go \<open>fetch s = Inr s1\<close> Inr]
          "1.IH" [OF True \<open>fetch s = Inr s1\<close> Inr]
        show ?thesis by simp
      qed
    qed
  qed
qed


lemma fetch_memory: "memory (state (outcome_state (fetch s))) = memory (state s)"
  by (simp add: fetch_def outcome_state_def split: option.split)

lemma decode_execute_memory:
  "memory (state (outcome_state (decode_execute v s))) = memory (state s)"
proof (cases "opcode_table v (opcode_of (current_instruction s))")
  case None
  then show ?thesis by (simp add: decode_execute_def outcome_state_def)
next
  case (Some handler)
  from opcode_table_frame [OF Some, of s] Some show ?thesis
    by (cases "handler s")
       (auto simp add: decode_execute_def handler_frame_def outcome_state_def)
qed

lemma run_loop_memory: "memory (state (run_loop v s max_steps)) = memory (state s)"
proof (induction v s max_steps rule: run_loop.induct)
  case (1 v s max_steps)
  show ?case
  proof (cases "\<not> halted (state s) \<and> step_count s < max_steps")
    case False
    then show ?thesis using run_loop_stop [of s max_steps v] by simp
  next
    case True
    then have go: "\<not> halted (state s)" "step_count s < max_steps" by simp_all
    show ?thesis
    proof (cases "fetch s")
      case (Inl a)
      obtain e s1 where a: "a = (e, s1)" by (cases a)
      from fetch_memory [of s] Inl a have "memory (state s1) = memory (state s)"
        by (simp add: outcome_state_def)
      with run_loop_fetch_raises [OF go Inl [unfolded a]] show ?thesis by simp
    next
      case (Inr s1)
      from fetch_memory [of s] Inr have m1: "memory (state s1) = memory (state s)"
        by (simp add: outcome_state_def)
      show ?thesis
      proof (cases "decode_execute v s1")
        case (Inl a)
        obtain e s2 where a: "a = (e, s2)" by (cases a)
        from decode_execute_memory [of v s1] Inl a m1
        have "memory (state s2) = memory (state s)" by (simp add: outcome_state_def)
        with run_loop_execute_raises [OF go \<open>fetch s = Inr s1\<close> Inl [unfolded a]]
        show ?thesis by simp
      next
        case (Inr s2)
        from decode_execute_memory [of v s1] Inr m1
        have "memory (state s2) = memory (state s)" by (simp add: outcome_state_def)
        with run_loop_continues [OF go \<open>fetch s = Inr s1\<close> Inr]
          "1.IH" [OF True \<open>fetch s = Inr s1\<close> Inr]
        show ?thesis by simp
      qed
    qed
  qed
qed

lemma run_memory: "memory (state (run v s start_addr max_steps)) = memory (state s)"
  by (simp add: run_def run_loop_memory)

lemma reset_memory: "memory (state (reset s)) = memory (state s)"
  by (simp add: reset_def)

lemma load_program_memory:
  "memory (state (load_program s program start_addr))
     = load_words (memory (state s)) start_addr 0 program"
  by (simp add: load_program_def)

lemma run_loop_current_instruction:
  "observable (run_loop v (s\<lparr>current_instruction := c\<rparr>) max_steps)
     = observable (run_loop v s max_steps)"
proof (cases "\<not> halted (state s) \<and> step_count s < max_steps")
  case False
  then show ?thesis
    using run_loop_stop [of s max_steps v]
      run_loop_stop [of "s\<lparr>current_instruction := c\<rparr>" max_steps v]
    by (simp add: observable_def)
next
  case True
  then have go: "\<not> halted (state s)" "step_count s < max_steps"
    and go': "\<not> halted (state (s\<lparr>current_instruction := c\<rparr>))"
      "step_count (s\<lparr>current_instruction := c\<rparr>) < max_steps"
    by simp_all
  show ?thesis
  proof (cases "memory (state s) (pc (state s))")
    case None
    have "fetch s = Inl (InvalidPC (pc (state s)), s)"
      and "fetch (s\<lparr>current_instruction := c\<rparr>)
             = Inl (InvalidPC (pc (state s)), s\<lparr>current_instruction := c\<rparr>)"
      using None by (simp_all add: fetch_def)
    from run_loop_fetch_raises [OF go this(1)] run_loop_fetch_raises [OF go' this(2)]
    show ?thesis by (simp add: observable_def)
  next
    case (Some instr)
    then have "fetch (s\<lparr>current_instruction := c\<rparr>) = fetch s"
      by (simp add: fetch_def)
    then have "run_loop v (s\<lparr>current_instruction := c\<rparr>) max_steps = run_loop v s max_steps"
      using go by (simp add: run_loop.simps [of v s] run_loop.simps [of v "s\<lparr>current_instruction := c\<rparr>"])
    then show ?thesis by simp
  qed
qed


lemma apply_calls_memory:
  "memory (state x) = memory (state y) \<Longrightarrow>
     memory (state (apply_calls v history x))
       = memory (state (apply_calls v (filter is_load history) y))"
proof (induction history arbitrary: x y)
  case Nil
  then show ?case by simp
next
  case (Cons c cs)
  show ?case
  proof (cases c)
    case (Load program start_addr)
    have "memory (state (load_program x program start_addr))
            = memory (state (load_program y program start_addr))"
      using Cons.prems by (simp add: load_program_memory)
    from Cons.IH [OF this] Load show ?thesis by simp
  next
    case (Run start_addr max_steps)
    have "memory (state (run v x start_addr max_steps)) = memory (state y)"
      using Cons.prems by (simp add: run_memory)
    from Cons.IH [OF this] Run show ?thesis by simp
  next
    case Reset
    have "memory (state (reset x)) = memory (state y)"
      using Cons.prems by (simp add: reset_memory)
    from Cons.IH [OF this] Reset show ?thesis by simp
  qed
qed

lemma loads_keep_rest:
  "\<forall>c \<in> set history. is_load c \<Longrightarrow>
     apply_calls v history x
       = x\<lparr>state := (state x)\<lparr>memory := memory (state (apply_calls v history x))\<rparr>\<rparr>"
proof (induction history arbitrary: x)
  case Nil
  then show ?case by simp
next
  case (Cons c cs)
  then obtain program start_addr where c: "c = Load program start_addr"
    by (cases c) simp_all
  from Cons.prems have "\<forall>c \<in> set cs. is_load c" by simp
  from Cons.IH [OF this, of "load_program x program start_addr"] c
  show ?case by (simp add: load_program_def)
qed

lemma reset_is_fresh:
  assumes "\<forall>c \<in> set loads. is_load c"
    and "memory (state s) = memory (state (apply_calls v loads initial_sim))"
  shows "reset s = (apply_calls v loads initial_sim)
                     \<lparr>current_instruction := current_instruction s,
                      breakpoints := breakpoints s\<rparr>"
proof -
  let ?t = "apply_calls v loads initial_sim"
  have "?t = initial_sim\<lparr>state := (state initial_sim)\<lparr>memory := memory (state ?t)\<rparr>\<rparr>"
    by (rule loads_keep_rest [OF assms(1)])
  then have "?t\<lparr>current_instruction := current_instruction s, breakpoints := breakpoints s\<rparr>
        = initial_sim\<lparr>state := (state initial_sim)\<lparr>memory := memory (state s)\<rparr>,
            current_instruction := current_instruction s, breakpoints := breakpoints s\<rparr>"
    using assms(2) by simp
  also have "\<dots> = reset s"
    by (simp add: reset_def initial_sim_def initial_cpu_state_def)
  finally show ?thesis by simp
qed

lemma run_fresh_independent:
  "observable (run v (t\<lparr>current_instruction := c, breakpoints := b\<rparr>) start_addr max_steps)
     = observable (run v t start_addr max_steps)"
proof -
  let ?t = "t\<lparr>state := (state t)\<lparr>pc := start_addr\<rparr>\<rparr>"
  have "run v (t\<lparr>current_instruction := c, breakpoints := b\<rparr>) start_addr max_steps
          = run_loop v ((?t\<lparr>current_instruction := c\<rparr>)\<lparr>breakpoints := b\<rparr>) max_steps"
    by (cases t) (simp add: run_def)
  also have "\<dots> = (run_loop v (?t\<lparr>current_instruction := c\<rparr>) max_steps)\<lparr>breakpoints := b\<rparr>"
    by (rule run_loop_breakpoints)
  finally have "observable (run v (t\<lparr>current_instruction := c, breakpoints := b\<rparr>) start_addr max_steps)
      = observable (run_loop v (?t\<lparr>current_instruction := c\<rparr>) max_steps)"
    by (simp add: observable_def)
  also have "\<dots> = observable (run_loop v ?t max_steps)"
    by (rule run_loop_current_instruction)
  finally show ?thesis by (simp add: run_def)
qed

text \<open>
  C9. Take any history of \<open>load_program\<close>, \<open>run\<close> and \<open>reset\<close> calls on a sequential
  interpreter (phase3.py's, or \<open>Phase3Simulator\<close> of phase5.py). Calling \<open>reset()\<close> and then
  \<open>run(start_addr, max_steps)\<close> ends with the same CPU state (registers, PC, stack, flags,
  memory, halted bit), log and step counter as a fresh interpreter on which only the
  \<open>load_program\<close> calls of the history are replayed and \<open>run(start_addr, max_steps)\<close> is
  called.
\<close>

theorem reset_then_run_as_fresh:
  "observable (run v (reset (apply_calls v history initial_sim)) start_addr max_steps)
     = observable (run v (apply_calls v (filter is_load history) initial_sim) start_addr max_steps)"
proof -
  let ?s = "apply_calls v history initial_sim"
  let ?t = "apply_calls v (filter is_load history) initial_sim"
  have m: "memory (state ?s) = memory (state ?t)"
    by (rule apply_calls_memory) simp
  have l: "\<forall>c \<in> set (filter is_load history). is_load c" by simp
  from reset_is_fresh [OF l m]
  have "reset ?s = ?t\<lparr>current_instruction := current_instruction ?s, breakpoints := breakpoints ?s\<rparr>" .
  then show ?thesis by (simp only: run_fresh_independent)
qed

lemma alu_test_words: "alu_test_program = [0x81230000, 0x30000000]"
  by (simp add: alu_test_program_def make_instruction_def)

theorem reset_then_run_as_fresh_witness:
  "observable
     (run Phase3Simulator
        (reset (apply_calls Phase3Simulator [Load alu_test_program 0, Run 0 10] initial_sim))
        0 10)
   = (\<lparr>registers = (replicate 16 0)[1 := 0], pc = 8, stack = [],
       flags = \<lparr>flag_Z = True, flag_C = False, flag_N = False\<rparr>,
       memory = [0 \<mapsto> 0x81230000, 4 \<mapsto> 0x30000000], halted = True\<rparr>,
      [LogALU 0 ''ADD'' 1 2 0 3 0 0, LogHalt 1], 2)"
proof -
  have "observable (run Phase3Simulator (load_program initial_sim alu_test_program 0) 0 10)
      = (\<lparr>registers = (replicate 16 0)[1 := 0], pc = 8, stack = [],
          flags = \<lparr>flag_Z = True, flag_C = False, flag_N = False\<rparr>,
          memory = [0 \<mapsto> 0x81230000, 4 \<mapsto> 0x30000000], halted = True\<rparr>,
         [LogALU 0 ''ADD'' 1 2 0 3 0 0, LogHalt 1], 2)"
    by (simp add: observable_def run_def load_program_def alu_test_words initial_sim_def
      initial_cpu_state_def run_loop.simps fetch_def decode_execute_def opcode_table_def
      phase3_opcodes_def opcode_of_def rd_of_def rs_of_def rt_of_def add_op_def halt_def
      alu_operation_def alu_result_def alu_carry_def decode_alu_operands_def Let_def)
  with reset_then_run_as_fresh
         [of Phase3Simulator "[Load alu_test_program 0, Run 0 10]" 0 10]
  show ?thesis by simp
qed


section \<open>The memory controller: range checks and coherence\<close>

lemma coherent_iff:
  "coherent m \<longleftrightarrow>
     (\<forall>addr v. map_of (mc_cache m) addr = Some v \<longrightarrow>
        0 \<le> addr \<and> addr < int (length (mc_memory m)) \<and> mc_memory m ! nat addr = v)"
proof
  assume c: "coherent m"
  show "\<forall>addr v. map_of (mc_cache m) addr = Some v \<longrightarrow>
        0 \<le> addr \<and> addr < int (length (mc_memory m)) \<and> mc_memory m ! nat addr = v"
  proof (intro allI impI)
    fix addr v assume s: "map_of (mc_cache m) addr = Some v"
    then have "addr \<in> set (map fst (mc_cache m))"
      using map_of_SomeD [OF s] by force
    with c s show "0 \<le> addr \<and> addr < int (length (mc_memory m)) \<and> mc_memory m ! nat addr = v"
      by (auto simp add: coherent_def)
  qed
next
  assume "\<forall>addr v. map_of (mc_cache m) addr = Some v \<longrightarrow>
        0 \<le> addr \<and> addr < int (length (mc_memory m)) \<and> mc_memory m ! nat addr = v"
  then show "coherent m"
    by (auto simp add: coherent_def split: option.split)
qed

lemma coherent_store:
  assumes "coherent m" and "0 \<le> addr" and "addr < int (length (mc_memory m))"
    and "\<And>a b. map_of c a = Some b \<Longrightarrow> map_of (mc_cache m) a = Some b"
  shows "coherent (m\<lparr>mc_memory := (mc_memory m)[nat addr := v],
                      mc_cache := AList.update addr v c\<rparr>)"
  unfolding coherent_iff
proof (intro allI impI)
  fix a b
  assume "map_of (mc_cache (m\<lparr>mc_memory := (mc_memory m)[nat addr := v],
                              mc_cache := AList.update addr v c\<rparr>)) a = Some b"
  then have u: "((map_of c)(addr \<mapsto> v)) a = Some b"
    by (simp add: update_conv')
  show "0 \<le> a \<and> a < int (length (mc_memory (m\<lparr>mc_memory := (mc_memory m)[nat addr := v],
                              mc_cache := AList.update addr v c\<rparr>)))
        \<and> mc_memory (m\<lparr>mc_memory := (mc_memory m)[nat addr := v],
                              mc_cache := AList.update addr v c\<rparr>) ! nat a = b"
  proof (cases "a = addr")
    case True
    with u assms(2,3) show ?thesis by simp
  next
    case False
    with u have "map_of c a = Some b" by simp
    then have "map_of (mc_cache m) a = Some b" by (rule assms(4))
    with assms(1) have r: "0 \<le> a" "a < int (length (mc_memory m))" "mc_memory m ! nat a = b"
      by (auto simp add: coherent_iff)
    from r(1) assms(2) False have "nat a \<noteq> nat addr" by simp
    with r show ?thesis by simp
  qed
qed

lemma coherent_counters:
  "coherent (m\<lparr>mc_read_count := r\<rparr>) = coherent m"
  "coherent (m\<lparr>mc_write_count := w\<rparr>) = coherent m"
  "coherent (m\<lparr>mc_cache_hits := h\<rparr>) = coherent m"
  "coherent (m\<lparr>mc_cache_hits := h, mc_read_count := r\<rparr>) = coherent m"
  by (simp_all add: coherent_iff)

lemma coherent_init: "coherent (memory_controller_init sz)"
  by (simp add: coherent_def memory_controller_init_def)

lemma coherent_flush_cache: "coherent (flush_cache m)"
  by (simp add: coherent_def flush_cache_def)

lemma coherent_write:
  assumes "coherent m"
  shows "coherent (snd (mc_write m addr v))"
proof (cases "0 \<le> addr \<and> addr < int (length (mc_memory m))")
  case False
  then have "mc_write m addr v = (False, m)" by (auto simp add: mc_write_def)
  with assms show ?thesis by simp
next
  case True
  from coherent_store [OF assms, where addr = addr and c = "mc_cache m" and v = "v AND 0xFFFFFFFF"] True
  have "coherent (m\<lparr>mc_memory := (mc_memory m)[nat addr := v AND 0xFFFFFFFF],
                     mc_cache := AList.update addr (v AND 0xFFFFFFFF) (mc_cache m)\<rparr>)"
    by simp
  with True show ?thesis
    by (simp add: mc_write_def Let_def coherent_counters)
qed

lemma coherent_read:
  assumes "coherent m"
  shows "coherent (snd (mc_read m addr))"
proof (cases "map_of (mc_cache m) addr")
  case (Some v)
  with assms show ?thesis by (simp add: mc_read_def coherent_counters)
next
  case None
  show ?thesis
  proof (cases "0 \<le> addr \<and> addr < int (length (mc_memory m))")
    case False
    with None have "mc_read m addr = (0, m)" by (auto simp add: mc_read_def)
    with assms show ?thesis by simp
  next
    case True
    define c where "c = (if int (length (mc_cache m)) \<ge> mc_cache_size m \<and> mc_cache m \<noteq> []
              then AList.delete (fst (hd (mc_cache m))) (mc_cache m) else mc_cache m)"
    have s: "\<And>a b. map_of c a = Some b \<Longrightarrow> map_of (mc_cache m) a = Some b"
      by (auto simp add: c_def delete_conv' split: if_splits)
    from coherent_store [OF assms _ _ s, where addr = addr and v = "mc_memory m ! nat addr"] True
    have k: "coherent (m\<lparr>mc_cache := AList.update addr (mc_memory m ! nat addr) c\<rparr>)"
      by simp
    have "snd (mc_read m addr) =
            (if mc_stats_enabled m
             then m\<lparr>mc_cache := AList.update addr (mc_memory m ! nat addr) c,
                    mc_read_count := mc_read_count m + 1\<rparr>
             else m\<lparr>mc_cache := AList.update addr (mc_memory m ! nat addr) c\<rparr>)"
      using None True by (simp add: mc_read_def Let_def c_def)
    with k show ?thesis by (simp add: coherent_counters)
  qed
qed

lemma mc_write_out_of_range:
  "\<not> (0 \<le> addr \<and> addr < int (length (mc_memory m))) \<Longrightarrow> mc_write m addr v = (False, m)"
  by (auto simp add: mc_write_def)

lemma bulk_load_too_long:
  "start_addr + int (length program) * 4 > int (length (mc_memory m)) \<Longrightarrow>
     bulk_load m program start_addr = Inr (False, m)"
  by (simp add: bulk_load_def)

lemma bulk_store_in_range:
  assumes "0 \<le> start_addr + offset * 4"
    and "start_addr + (offset + int (length program)) * 4 \<le> int (length (mc_memory m))"
  shows "\<exists>m'. bulk_store m start_addr offset program = Inr m'
           \<and> length (mc_memory m') = length (mc_memory m)
           \<and> (\<forall>j < nat (start_addr + offset * 4). mc_memory m' ! j = mc_memory m ! j)
           \<and> (\<forall>i < length program.
                 mc_memory m' ! nat (start_addr + (offset + int i) * 4)
                   = program ! i AND 0xFFFFFFFF)
           \<and> (coherent m \<longrightarrow> coherent m')
           \<and> mc_stats_enabled m' = mc_stats_enabled m
           \<and> mc_write_count m' = mc_write_count m"
  using assms
proof (induction program arbitrary: m offset)
  case Nil
  then show ?case by simp
next
  case (Cons instr rest)
  let ?addr = "start_addr + offset * 4"
  let ?v = "instr AND 0xFFFFFFFF"
  let ?m1 = "m\<lparr>mc_memory := (mc_memory m)[nat ?addr := ?v],
               mc_cache := AList.update ?addr ?v (mc_cache m)\<rparr>"
  from Cons.prems have r: "0 \<le> ?addr" "?addr < int (length (mc_memory m))"
    by simp_all
  then have s: "list_setitem (mc_memory m) ?addr ?v = Some ((mc_memory m)[nat ?addr := ?v])"
    by (simp add: list_setitem_def)
  have step: "bulk_store m start_addr offset (instr # rest)
                = bulk_store ?m1 start_addr (offset + 1) rest"
    using s by (simp add: Let_def)
  have p1: "0 \<le> start_addr + (offset + 1) * 4" using r by simp
  have p2: "start_addr + ((offset + 1) + int (length rest)) * 4 \<le> int (length (mc_memory ?m1))"
    using Cons.prems(2) by simp
  from Cons.IH [OF p1 p2] obtain m' where
    b: "bulk_store ?m1 start_addr (offset + 1) rest = Inr m'"
    and l: "length (mc_memory m') = length (mc_memory ?m1)"
    and f: "\<forall>j < nat (start_addr + (offset + 1) * 4). mc_memory m' ! j = mc_memory ?m1 ! j"
    and w: "\<forall>i < length rest.
              mc_memory m' ! nat (start_addr + ((offset + 1) + int i) * 4) = rest ! i AND 0xFFFFFFFF"
    and c: "coherent ?m1 \<longrightarrow> coherent m'"
    and e: "mc_stats_enabled m' = mc_stats_enabled ?m1" "mc_write_count m' = mc_write_count ?m1"
    by blast
  have c1: "coherent m \<longrightarrow> coherent ?m1"
    using coherent_store [where m = m and addr = ?addr and c = "mc_cache m" and v = ?v] r
    by simp
  have f': "\<forall>j < nat ?addr. mc_memory m' ! j = mc_memory m ! j"
  proof (intro allI impI)
    fix j assume j: "j < nat ?addr"
    then have "j < nat (start_addr + (offset + 1) * 4)" using r by simp
    with f have "mc_memory m' ! j = mc_memory ?m1 ! j" by simp
    also have "\<dots> = mc_memory m ! j" using j by simp
    finally show "mc_memory m' ! j = mc_memory m ! j" .
  qed
  have w': "\<forall>i < length (instr # rest).
              mc_memory m' ! nat (start_addr + (offset + int i) * 4) = (instr # rest) ! i AND 0xFFFFFFFF"
  proof (intro allI impI)
    fix i assume i: "i < length (instr # rest)"
    show "mc_memory m' ! nat (start_addr + (offset + int i) * 4) = (instr # rest) ! i AND 0xFFFFFFFF"
    proof (cases i)
      case 0
      have "nat ?addr < nat (start_addr + (offset + 1) * 4)" using r by simp
      with f have "mc_memory m' ! nat ?addr = mc_memory ?m1 ! nat ?addr" by simp
      also have "\<dots> = ?v" using r by simp
      finally show ?thesis using 0 by simp
    next
      case (Suc k)
      with i have "k < length rest" by simp
      with w have a: "mc_memory m' ! nat (start_addr + ((offset + 1) + int k) * 4) = rest ! k AND 0xFFFFFFFF"
        by blast
      have b: "start_addr + (offset + int i) * 4 = start_addr + ((offset + 1) + int k) * 4"
        using Suc by simp
      have "(instr # rest) ! i = rest ! k" using Suc by simp
      with a show ?thesis by (simp only: b)
    qed
  qed
  from step b l f' w' c c1 e show ?case by simp
qed

lemma bulk_load_in_range:
  assumes "0 \<le> start_addr"
    and "start_addr + int (length program) * 4 \<le> int (length (mc_memory m))"
  shows "\<exists>m'. bulk_load m program start_addr = Inr (True, m')
           \<and> (\<forall>i < length program.
                 mc_memory m' ! nat (start_addr + int i * 4) = program ! i AND 0xFFFFFFFF)
           \<and> (coherent m \<longrightarrow> coherent m')"
proof -
  from bulk_store_in_range [of start_addr 0 program m] assms obtain m1 where
    b: "bulk_store m start_addr 0 program = Inr m1"
    and w: "\<forall>i < length program.
              mc_memory m1 ! nat (start_addr + int i * 4) = program ! i AND 0xFFFFFFFF"
    and c: "coherent m \<longrightarrow> coherent m1"
    by auto
  let ?m' = "if mc_stats_enabled m1
             then m1\<lparr>mc_write_count := mc_write_count m1 + int (length program)\<rparr> else m1"
  have "bulk_load m program start_addr = Inr (True, ?m')"
    using assms(2) b by (simp add: bulk_load_def)
  moreover have "\<forall>i < length program.
                 mc_memory ?m' ! nat (start_addr + int i * 4) = program ! i AND 0xFFFFFFFF"
    using w by simp
  moreover have "coherent m \<longrightarrow> coherent ?m'"
    using c by (simp add: coherent_counters)
  ultimately show ?thesis by blast
qed

lemma mc_apply_coherent:
  assumes "coherent m" and "\<And>program start_addr. c = McBulkLoad program start_addr \<Longrightarrow> 0 \<le> start_addr"
  shows "coherent (mc_apply c m)"
proof (cases c)
  case (McRead addr)
  with assms(1) show ?thesis by (simp add: coherent_read)
next
  case (McWrite addr v)
  with assms(1) show ?thesis by (simp add: coherent_write)
next
  case (McBulkLoad program start_addr)
  with assms(2) have n: "0 \<le> start_addr" by simp
  show ?thesis
  proof (cases "start_addr + int (length program) * 4 > int (length (mc_memory m))")
    case True
    with assms(1) McBulkLoad show ?thesis by (simp add: bulk_load_too_long)
  next
    case False
    then have "start_addr + int (length program) * 4 \<le> int (length (mc_memory m))" by simp
    from bulk_load_in_range [OF n this] assms(1) McBulkLoad show ?thesis by auto
  qed
next
  case McFlushCache
  then show ?thesis by (simp add: coherent_flush_cache)
qed

lemma mc_apply_all_coherent:
  assumes "coherent m"
    and "\<forall>program start_addr. McBulkLoad program start_addr \<in> set cs \<longrightarrow> 0 \<le> start_addr"
  shows "coherent (mc_apply_all cs m)"
  using assms
proof (induction cs arbitrary: m)
  case Nil
  then show ?case by simp
next
  case (Cons c cs)
  have "coherent (mc_apply c m)"
  proof (rule mc_apply_coherent [OF Cons.prems(1)])
    fix program start_addr assume "c = McBulkLoad program start_addr"
    then have "McBulkLoad program start_addr \<in> set (c # cs)" by simp
    with Cons.prems(2) show "0 \<le> start_addr" by blast
  qed
  moreover have "\<forall>program start_addr. McBulkLoad program start_addr \<in> set cs \<longrightarrow> 0 \<le> start_addr"
    using Cons.prems(2) by (meson list.set_intros(2))
  ultimately show ?case using Cons.IH by simp
qed

text \<open>
  C7 fails on the code. \<open>bulk_load\<close> tests only the upper bound, so a start address below
  \<open>-SIZE\<close> passes the test and the first list assignment raises IndexError: the call
  returns neither False nor True. \<open>write\<close> at the same address returns False. The rest of
  the claim holds: \<open>mc_write_out_of_range\<close>, \<open>bulk_load_too_long\<close>, and
  \<open>bulk_load_in_range\<close> for a start address that is not negative.
\<close>

theorem bulk_load_negative_start_raises:
  "bulk_load (memory_controller_init MEMORY_SIZE) [7] (- 2048)
     = Inl (IndexError, memory_controller_init MEMORY_SIZE)
   \<and> mc_write (memory_controller_init MEMORY_SIZE) (- 2048) 7
     = (False, memory_controller_init MEMORY_SIZE)"
  by (simp add: bulk_load_def list_setitem_def mc_write_def memory_controller_init_def
      MEMORY_SIZE_def Let_def)

text \<open>
  C8 fails on the code, by the same missing lower bound. \<open>bulk_load([5], -4)\<close> succeeds: the
  list assignment counts from the end and writes index 1020, and the cache gets the key
  \<open>-4\<close>. After \<open>write(1020, 9)\<close> the cache still maps \<open>-4\<close> to 5, an address the backing
  array does not have and whose aliased cell now holds 9; \<open>read(-4)\<close> returns 5 from the
  cache and 0 once the cache is flushed. With every \<open>bulk_load\<close> start address
  non-negative, coherence is an invariant (\<open>mc_apply_all_coherent\<close>).
\<close>

theorem bulk_load_negative_start_incoherent:
  "\<exists>m1 m2. bulk_load (memory_controller_init MEMORY_SIZE) [5] (- 4) = Inr (True, m1)
     \<and> mc_write m1 1020 9 = (True, m2)
     \<and> map_of (mc_cache m2) (- 4) = Some 5
     \<and> length (mc_memory m2) = 1024
     \<and> mc_memory m2 ! 1020 = 9
     \<and> fst (mc_read m2 (- 4)) = 5
     \<and> fst (mc_read (flush_cache m2) (- 4)) = 0"
  by (simp add: bulk_load_def list_setitem_def mc_write_def mc_read_def flush_cache_def
      memory_controller_init_def MEMORY_SIZE_def Let_def)

lemma negative_start_not_coherent:
  "\<not> coherent
       (mc_apply_all [McBulkLoad [5] (- 4), McWrite 1020 9] (memory_controller_init MEMORY_SIZE))"
  by (simp add: bulk_load_def list_setitem_def mc_write_def coherent_def
      memory_controller_init_def MEMORY_SIZE_def Let_def)
end
